theory Spec2Isabelle
  imports Main "HOL-Library.Sublist"
begin

section \<open>Data model\<close>

text \<open>
  The query helpers of \<^verbatim>\<open>playground/agents_py/tools.py\<close> (class \<^verbatim>\<open>ChromaDBTools\<close>)
  wrap one vector-store handle. A Python \<^verbatim>\<open>str\<close> is a list of characters; one \<open>char\<close>
  of the model stands for one character of the Python string (code points below 256),
  so \<open>length\<close> is Python's \<^verbatim>\<open>len\<close> and \<open>take\<close> is the slice \<^verbatim>\<open>s[:n]\<close>.

  A document chunk is the store's \<^verbatim>\<open>Document\<close>: its text and its metadata dictionary.
  The only metadata key the helpers read is \<^verbatim>\<open>"page"\<close>, an integer when present; the
  dictionary is a map from keys to integers, and an absent key is \<open>None\<close>.
\<close>

type_synonym metadata = "string \<rightharpoonup> int"

record document =
  page_content :: string
  metadata :: metadata

text \<open>
  The \<^verbatim>\<open>where\<close> argument of the store's \<^verbatim>\<open>get\<close>: \<^verbatim>\<open>{"page": p}\<close> is \<open>WherePage p\<close> and
  \<^verbatim>\<open>{"$or": [c1, ..., cn]}\<close> is \<open>WhereOr [c1, ..., cn]\<close>.
\<close>

datatype where_filter = WherePage int | WhereOr "where_filter list"

text \<open>The dictionary returned by the store's \<^verbatim>\<open>get\<close>, with the two keys the code reads.\<close>

record get_result =
  documents :: "string list"
  metadatas :: "metadata list"

text \<open>
  What a call can raise: \<^verbatim>\<open>KeyError\<close> from an unguarded dictionary index, and whatever
  the external store raises, which the helpers never catch.
\<close>

datatype error = KeyError string | StoreError string

text \<open>
  The external store. Its state has the abstract type \<open>'s\<close>; its two query methods
  read that state and either raise or answer. Ranking and filtering are the store's.
\<close>

record 's backend =
  similarity_search :: "'s \<Rightarrow> string \<Rightarrow> int \<Rightarrow> error + document list"
  get :: "'s \<Rightarrow> where_filter \<Rightarrow> error + get_result"

text \<open>
  The state the helpers run in: the store handle \<^verbatim>\<open>self.vector_store\<close> and the
  sequence of invocations made on it so far.
\<close>

datatype store_call = SimilaritySearchCall string int | GetCall where_filter

record 's world =
  vector_store :: "'s"
  calls :: "store_call list"

definition call_similarity_search ::
  "'s backend \<Rightarrow> string \<Rightarrow> int \<Rightarrow> 's world \<Rightarrow> (error + document list) \<times> 's world" where
  "call_similarity_search B query k w =
     (similarity_search B (vector_store w) query k,
      w\<lparr>calls := calls w @ [SimilaritySearchCall query k]\<rparr>)"

definition call_get ::
  "'s backend \<Rightarrow> where_filter \<Rightarrow> 's world \<Rightarrow> (error + get_result) \<times> 's world" where
  "call_get B flt w =
     (get B (vector_store w) flt, w\<lparr>calls := calls w @ [GetCall flt]\<rparr>)"

section \<open>Python's string conversions\<close>

definition nl :: string where
  "nl = [CHR 0x0A]"

definition digit_char :: "nat \<Rightarrow> char" where
  "digit_char d = char_of (48 + d)"

text \<open>\<^verbatim>\<open>str(n)\<close> for a non-negative integer: its decimal digits.\<close>

fun str_nat :: "nat \<Rightarrow> string" where
  "str_nat n = (if n < 10 then [digit_char n] else str_nat (n div 10) @ [digit_char (n mod 10)])"

declare str_nat.simps [simp del]

text \<open>\<^verbatim>\<open>str(i)\<close> for an integer.\<close>

definition str_int :: "int \<Rightarrow> string" where
  "str_int i = (if i < 0 then CHR ''-'' # str_nat (nat (- i)) else str_nat (nat i))"

text \<open>\<^verbatim>\<open>", ".join(xs)\<close>.\<close>

fun join_comma :: "string list \<Rightarrow> string" where
  "join_comma [] = []"
| "join_comma [x] = x"
| "join_comma (x # y # ys) = x @ '', '' @ join_comma (y # ys)"

text \<open>\<^verbatim>\<open>str\<close> of a list of integers, as an f-string renders it: \<^verbatim>\<open>[3, 5]\<close>.\<close>

definition str_int_list :: "int list \<Rightarrow> string" where
  "str_int_list xs = ''['' @ join_comma (map str_int xs) @ '']''"

text \<open>
  \<^verbatim>\<open>repr\<close> of a string, which \<^verbatim>\<open>str\<close> of a list applies to its elements. The quote is
  \<^verbatim>\<open>'\<close> unless the string has a \<^verbatim>\<open>'\<close> and no \<^verbatim>\<open>"\<close>; the quote and the backslash are
  escaped, tab, newline and carriage return are written \<^verbatim>\<open>\t\<close>, \<^verbatim>\<open>\n\<close>, \<^verbatim>\<open>\r\<close>, and any
  other character that is not printable is written \<^verbatim>\<open>\xhh\<close>.
\<close>

definition hex_digit :: "nat \<Rightarrow> char" where
  "hex_digit d = (if d < 10 then char_of (48 + d) else char_of (87 + d))"

definition isprintable :: "char \<Rightarrow> bool" where
  "isprintable c =
     (let n = (of_char c :: nat)
      in (32 \<le> n \<and> n < 127) \<or> (161 \<le> n \<and> n < 173) \<or> 173 < n)"

definition repr_char :: "char \<Rightarrow> char \<Rightarrow> string" where
  "repr_char quote c =
     (let n = (of_char c :: nat)
      in if c = quote \<or> c = CHR 0x5C then [CHR 0x5C, c]
         else if n = 9 then [CHR 0x5C, CHR ''t'']
         else if n = 10 then [CHR 0x5C, CHR ''n'']
         else if n = 13 then [CHR 0x5C, CHR ''r'']
         else if isprintable c then [c]
         else [CHR 0x5C, CHR ''x'', hex_digit (n div 16), hex_digit (n mod 16)])"

definition repr_str :: "string \<Rightarrow> string" where
  "repr_str s =
     (let quote = (if CHR 0x27 \<in> set s \<and> CHR 0x22 \<notin> set s then CHR 0x22 else CHR 0x27)
      in quote # concat (map (repr_char quote) s) @ [quote])"

definition str_str_list :: "string list \<Rightarrow> string" where
  "str_str_list xs = ''['' @ join_comma (map repr_str xs) @ '']''"

text \<open>
  The slice \<^verbatim>\<open>xs[:k]\<close> for an integer \<open>k\<close>: the first \<open>k\<close> elements, and for a negative
  \<open>k\<close> all but the last \<open>-k\<close>.
\<close>

definition slice_to :: "int \<Rightarrow> 'a list \<Rightarrow> 'a list" where
  "slice_to k xs = (if 0 \<le> k then take (nat k) xs else take (length xs - nat (- k)) xs)"

section \<open>The four operations\<close>

subsection \<open>\<^verbatim>\<open>semantic_search\<close>\<close>

text \<open>\<^verbatim>\<open>page = res.metadata.get("page", "unknown")\<close>, as the f-string renders it.\<close>

definition page_label :: "document \<Rightarrow> string" where
  "page_label res = (case metadata res ''page'' of None \<Rightarrow> ''unknown'' | Some p \<Rightarrow> str_int p)"

text \<open>
  \<^verbatim>\<open>content = res.page_content[:300] + "..." if len(res.page_content) > 300 else res.page_content\<close>
\<close>

definition semantic_search_content :: "document \<Rightarrow> string" where
  "semantic_search_content res =
     (if length (page_content res) > 300 then take 300 (page_content res) @ ''...''
      else page_content res)"

text \<open>The text one iteration appends: \<^verbatim>\<open>f"{i}. [Page {page}]\n{content}\n\n"\<close>.\<close>

definition entry :: "nat \<Rightarrow> string \<Rightarrow> string \<Rightarrow> string" where
  "entry i page content = str_nat i @ ''. [Page '' @ page @ '']'' @ nl @ content @ nl @ nl"

text \<open>The loop \<^verbatim>\<open>for i, res in enumerate(results, 1): output += ...\<close>.\<close>

fun semantic_search_loop :: "string \<Rightarrow> nat \<Rightarrow> document list \<Rightarrow> string" where
  "semantic_search_loop output i [] = output"
| "semantic_search_loop output i (res # rest) =
     semantic_search_loop
       (output @ entry i (page_label res) (semantic_search_content res)) (Suc i) rest"

definition semantic_search ::
  "'s backend \<Rightarrow> string \<Rightarrow> int \<Rightarrow> 's world \<Rightarrow> (error + string) \<times> 's world" where
  "semantic_search B query k w =
     (case call_similarity_search B query k w of
        (Inl e, w') \<Rightarrow> (Inl e, w')
      | (Inr results, w') \<Rightarrow>
          if results = [] then (Inr ''No results found for the query.'', w')
          else (Inr (semantic_search_loop
                       (''Found '' @ str_nat (length results) @ '' relevant passages:'' @ nl @ nl)
                       1 results), w'))"

subsection \<open>\<^verbatim>\<open>get_document_pages\<close>\<close>

text \<open>
  The loop over \<^verbatim>\<open>zip(context["documents"], context["metadatas"])\<close>; the index
  \<^verbatim>\<open>metadata['page']\<close> raises \<^verbatim>\<open>KeyError\<close> when the key is absent.
\<close>

fun get_document_pages_loop :: "string \<Rightarrow> (string \<times> metadata) list \<Rightarrow> error + string" where
  "get_document_pages_loop text [] = Inr text"
| "get_document_pages_loop text ((doc, md) # rest) =
     (case md ''page'' of
        None \<Rightarrow> Inl (KeyError ''page'')
      | Some p \<Rightarrow>
          get_document_pages_loop
            (text @ ''=== Page '' @ str_int p @ '' ==='' @ nl @ doc @ nl @ nl) rest)"

definition get_document_pages ::
  "'s backend \<Rightarrow> int list \<Rightarrow> 's world \<Rightarrow> (error + string) \<times> 's world" where
  "get_document_pages B pages w =
     (if pages = [] then (Inr ''No pages specified.'', w)
      else
        (case (if length pages = 1 then call_get B (WherePage (pages ! 0)) w
               else call_get B (WhereOr (map WherePage pages)) w) of
           (Inl e, w') \<Rightarrow> (Inl e, w')
         | (Inr context, w') \<Rightarrow>
             if documents context = []
             then (Inr (''No content found for pages: '' @ str_int_list pages), w')
             else (get_document_pages_loop [] (zip (documents context) (metadatas context)), w')))"

subsection \<open>\<^verbatim>\<open>search_with_page_filter\<close>\<close>

text \<open>The condition \<^verbatim>\<open>start_page <= res.metadata.get("page", 0) <= end_page\<close>.\<close>

definition page_in_range :: "int \<Rightarrow> int \<Rightarrow> document \<Rightarrow> bool" where
  "page_in_range start_page end_page res =
     (let p = (case metadata res ''page'' of None \<Rightarrow> 0 | Some v \<Rightarrow> v)
      in start_page \<le> p \<and> p \<le> end_page)"

text \<open>\<^verbatim>\<open>filtered = [res for res in results if ...][:k]\<close>\<close>

definition filtered_results :: "int \<Rightarrow> int \<Rightarrow> int \<Rightarrow> document list \<Rightarrow> document list" where
  "filtered_results start_page end_page k results =
     slice_to k (filter (page_in_range start_page end_page) results)"

definition page_filter_content :: "document \<Rightarrow> string" where
  "page_filter_content res =
     (if length (page_content res) > 250 then take 250 (page_content res) @ ''...''
      else page_content res)"

fun page_filter_loop :: "string \<Rightarrow> nat \<Rightarrow> document list \<Rightarrow> string" where
  "page_filter_loop output i [] = output"
| "page_filter_loop output i (res # rest) =
     page_filter_loop
       (output @ entry i (page_label res) (page_filter_content res)) (Suc i) rest"

definition search_with_page_filter ::
  "'s backend \<Rightarrow> string \<Rightarrow> int \<Rightarrow> int \<Rightarrow> int \<Rightarrow> 's world \<Rightarrow> (error + string) \<times> 's world" where
  "search_with_page_filter B query start_page end_page k w =
     (case call_similarity_search B query (k * 3) w of
        (Inl e, w') \<Rightarrow> (Inl e, w')
      | (Inr results, w') \<Rightarrow>
          (let filtered = filtered_results start_page end_page k results
           in if filtered = []
              then (Inr (''No results found in pages '' @ str_int start_page @ ''-''
                         @ str_int end_page @ ''.''), w')
              else (Inr (page_filter_loop
                           (''Found '' @ str_nat (length filtered) @ '' results in pages ''
                            @ str_int start_page @ ''-'' @ str_int end_page @ '':'' @ nl @ nl)
                           1 filtered), w')))"

subsection \<open>\<^verbatim>\<open>find_pages_by_keywords\<close>\<close>

text \<open>
  \<^verbatim>\<open>pages = [res.metadata.get("page") for res in results if res.metadata.get("page")]\<close>:
  the condition is the truth value of the looked-up page, which is false for an absent
  key (\<^verbatim>\<open>None\<close>) and for the integer 0.
\<close>

definition truthy :: "int option \<Rightarrow> bool" where
  "truthy v = (case v of None \<Rightarrow> False | Some p \<Rightarrow> p \<noteq> 0)"

definition keyword_pages :: "document list \<Rightarrow> int list" where
  "keyword_pages results =
     map (\<lambda>res. the (metadata res ''page''))
       (filter (\<lambda>res. truthy (metadata res ''page'')) results)"

text \<open>
  The loop \<^verbatim>\<open>for keyword in keywords\<close>, with the set \<^verbatim>\<open>all_pages\<close> as accumulator; a
  raising store call ends it.
\<close>

fun find_pages_loop ::
  "'s backend \<Rightarrow> int set \<Rightarrow> string list \<Rightarrow> 's world \<Rightarrow> (error + int set) \<times> 's world" where
  "find_pages_loop B all_pages [] w = (Inr all_pages, w)"
| "find_pages_loop B all_pages (keyword # rest) w =
     (case call_similarity_search B keyword 10 w of
        (Inl e, w') \<Rightarrow> (Inl e, w')
      | (Inr results, w') \<Rightarrow>
          find_pages_loop B (all_pages \<union> set (keyword_pages results)) rest w')"

definition find_pages_by_keywords ::
  "'s backend \<Rightarrow> string list \<Rightarrow> 's world \<Rightarrow> (error + string) \<times> 's world" where
  "find_pages_by_keywords B keywords w =
     (if keywords = [] then (Inr ''No keywords provided.'', w)
      else
        (case find_pages_loop B {} keywords w of
           (Inl e, w') \<Rightarrow> (Inl e, w')
         | (Inr all_pages, w') \<Rightarrow>
             if all_pages = {}
             then (Inr (''No pages found containing keywords: '' @ str_str_list keywords), w')
             else
               (let sorted_pages = sorted_list_of_set all_pages
                in (Inr (''Found '' @ str_nat (length sorted_pages)
                         @ '' pages containing keywords '' @ str_str_list keywords @ '':'' @ nl
                         @ ''Pages: '' @ str_int_list sorted_pages), w'))))"

section \<open>Concrete stores\<close>

text \<open>
  A chunk with the given text and, when a page is given, the metadata \<^verbatim>\<open>{"page": p}\<close>;
  a store over the trivial state that answers a similarity search with \<open>f query\<close> and
  every \<^verbatim>\<open>get\<close> with \<open>g\<close>; and a state with no invocation made so far.
\<close>

definition chunk :: "string \<Rightarrow> int option \<Rightarrow> document" where
  "chunk c p =
     \<lparr>page_content = c,
      metadata = (case p of None \<Rightarrow> Map.empty | Some v \<Rightarrow> [''page'' \<mapsto> v])\<rparr>"

definition fixed_store :: "(string \<Rightarrow> document list) \<Rightarrow> get_result \<Rightarrow> unit backend" where
  "fixed_store f g = \<lparr>similarity_search = (\<lambda>s q k. Inr (f q)), get = (\<lambda>s flt. Inr g)\<rparr>"

definition no_documents :: get_result where
  "no_documents = \<lparr>documents = [], metadatas = []\<rparr>"

text \<open>The store that answers every similarity search with the same chunks.\<close>

definition constant_store :: "document list \<Rightarrow> unit backend" where
  "constant_store rs = fixed_store (\<lambda>q. rs) no_documents"

definition w0 :: "unit world" where
  "w0 = \<lparr>vector_store = (), calls = []\<rparr>"

text \<open>A text of 301 characters, longer than both truncation thresholds.\<close>

definition long_text :: string where
  "long_text = replicate 301 (CHR ''a'')"

text \<open>
  An answer of \<^verbatim>\<open>get\<close> with one document whose metadata has no \<^verbatim>\<open>"page"\<close> key; six
  chunks in rank order, one of them without a page; and a store that answers the query
  \<^verbatim>\<open>"alpha"\<close> with a chunk of page 0 and one of page 4, and any other query with a
  chunk without a page, one of page 4 and one of page 2.
\<close>

definition pageless_answer :: get_result where
  "pageless_answer = \<lparr>documents = [''text''], metadatas = [Map.empty]\<rparr>"

definition ranked :: "document list" where
  "ranked = [chunk ''a'' (Some 12), chunk ''b'' (Some 3), chunk ''c'' (Some 20),
             chunk ''d'' None, chunk ''e'' (Some 10), chunk ''f'' (Some 15)]"

definition keyword_answers :: "string \<Rightarrow> document list" where
  "keyword_answers q =
     (if q = ''alpha'' then [chunk ''intro'' (Some 0), chunk ''body'' (Some 4)]
      else [chunk ''x'' None, chunk ''y'' (Some 4), chunk ''z'' (Some 2)])"

section \<open>The operations on objects held by reference\<close>

text \<open>
  The store as a live object: a query method returns its answer together with the state
  the store is in afterwards, so a method is free to change the store. A store whose
  queries only read, as the helpers take theirs to be, is \<open>read_only B\<close>.
\<close>

record 's live_store =
  run_similarity_search :: "'s \<Rightarrow> string \<Rightarrow> int \<Rightarrow> (error + document list) \<times> 's"
  run_get :: "'s \<Rightarrow> where_filter \<Rightarrow> (error + get_result) \<times> 's"

definition read_only :: "'s backend \<Rightarrow> 's live_store" where
  "read_only B =
     \<lparr>run_similarity_search = (\<lambda>s query k. (similarity_search B s query k, s)),
      run_get = (\<lambda>s flt. (get B s flt, s))\<rparr>"

text \<open>
  The objects a call works on. The Python code holds the chunks of an answer by
  reference: a \<^verbatim>\<open>Document\<close> is an object whose \<^verbatim>\<open>page_content\<close> and \<^verbatim>\<open>metadata\<close> can be
  assigned to, and a metadata dictionary returned by \<^verbatim>\<open>get\<close> is an object that can be
  updated in place. The state is the store handle, the \<^verbatim>\<open>Document\<close> objects by address
  and the dictionary objects by address, each with the number of addresses in use.
\<close>

record 's machine =
  store_handle :: "'s"
  chunk_objects :: "nat \<Rightarrow> document"
  chunk_count :: nat
  dict_objects :: "nat \<Rightarrow> metadata"
  dict_count :: nat

text \<open>
  The store builds the objects of an answer: each chunk, and each metadata dictionary of
  a \<^verbatim>\<open>get\<close>, is put at the next free address, and the caller receives the addresses.
\<close>

definition new_chunk :: "document \<Rightarrow> 's machine \<Rightarrow> nat \<times> 's machine" where
  "new_chunk d m =
     (chunk_count m,
      m\<lparr>chunk_objects := (chunk_objects m)(chunk_count m := d),
        chunk_count := Suc (chunk_count m)\<rparr>)"

fun new_chunks :: "document list \<Rightarrow> 's machine \<Rightarrow> nat list \<times> 's machine" where
  "new_chunks [] m = ([], m)"
| "new_chunks (d # ds) m =
     (case new_chunk d m of
        (r, m1) \<Rightarrow> (case new_chunks ds m1 of (rs, m2) \<Rightarrow> (r # rs, m2)))"

definition new_dict :: "metadata \<Rightarrow> 's machine \<Rightarrow> nat \<times> 's machine" where
  "new_dict d m =
     (dict_count m,
      m\<lparr>dict_objects := (dict_objects m)(dict_count m := d),
        dict_count := Suc (dict_count m)\<rparr>)"

fun new_dicts :: "metadata list \<Rightarrow> 's machine \<Rightarrow> nat list \<times> 's machine" where
  "new_dicts [] m = ([], m)"
| "new_dicts (d # ds) m =
     (case new_dict d m of
        (r, m1) \<Rightarrow> (case new_dicts ds m1 of (rs, m2) \<Rightarrow> (r # rs, m2)))"

text \<open>
  The two store calls: the store's method runs, the store is left as the method leaves
  it, and the objects of the answer are built.
\<close>

definition similarity_search_by_ref ::
  "'s live_store \<Rightarrow> string \<Rightarrow> int \<Rightarrow> 's machine \<Rightarrow> (error + nat list) \<times> 's machine" where
  "similarity_search_by_ref L query k m =
     (case run_similarity_search L (store_handle m) query k of
        (Inl e, s) \<Rightarrow> (Inl e, m\<lparr>store_handle := s\<rparr>)
      | (Inr answer, s) \<Rightarrow>
          (case new_chunks answer (m\<lparr>store_handle := s\<rparr>) of
             (results, m') \<Rightarrow> (Inr results, m')))"

definition get_by_ref ::
  "'s live_store \<Rightarrow> where_filter \<Rightarrow> 's machine
     \<Rightarrow> (error + string list \<times> nat list) \<times> 's machine" where
  "get_by_ref L flt m =
     (case run_get L (store_handle m) flt of
        (Inl e, s) \<Rightarrow> (Inl e, m\<lparr>store_handle := s\<rparr>)
      | (Inr answer, s) \<Rightarrow>
          (case new_dicts (metadatas answer) (m\<lparr>store_handle := s\<rparr>) of
             (mds, m') \<Rightarrow> (Inr (documents answer, mds), m')))"

text \<open>
  The four operations again, statement by statement, on references. Every read of
  \<^verbatim>\<open>res.metadata\<close>, \<^verbatim>\<open>res.page_content\<close> or \<^verbatim>\<open>metadata['page']\<close> is a read of the object
  at the address; every statement returns the state it leaves, and since the source
  assigns to no attribute and updates no dictionary, none of them writes an object.
\<close>

fun semantic_search_by_ref_loop ::
  "string \<Rightarrow> nat \<Rightarrow> nat list \<Rightarrow> 's machine \<Rightarrow> string \<times> 's machine" where
  "semantic_search_by_ref_loop output i [] m = (output, m)"
| "semantic_search_by_ref_loop output i (r # rest) m =
     (let res = chunk_objects m r
      in semantic_search_by_ref_loop
           (output @ entry i (page_label res) (semantic_search_content res)) (Suc i) rest m)"

definition semantic_search_by_ref ::
  "'s live_store \<Rightarrow> string \<Rightarrow> int \<Rightarrow> 's machine \<Rightarrow> (error + string) \<times> 's machine" where
  "semantic_search_by_ref L query k m =
     (case similarity_search_by_ref L query k m of
        (Inl e, m1) \<Rightarrow> (Inl e, m1)
      | (Inr results, m1) \<Rightarrow>
          if results = [] then (Inr ''No results found for the query.'', m1)
          else (case semantic_search_by_ref_loop
                       (''Found '' @ str_nat (length results) @ '' relevant passages:'' @ nl @ nl)
                       1 results m1 of
                  (output, m2) \<Rightarrow> (Inr output, m2)))"

fun get_document_pages_by_ref_loop ::
  "string \<Rightarrow> (string \<times> nat) list \<Rightarrow> 's machine \<Rightarrow> (error + string) \<times> 's machine" where
  "get_document_pages_by_ref_loop text [] m = (Inr text, m)"
| "get_document_pages_by_ref_loop text ((doc, r) # rest) m =
     (case dict_objects m r ''page'' of
        None \<Rightarrow> (Inl (KeyError ''page''), m)
      | Some p \<Rightarrow>
          get_document_pages_by_ref_loop
            (text @ ''=== Page '' @ str_int p @ '' ==='' @ nl @ doc @ nl @ nl) rest m)"

definition get_document_pages_by_ref ::
  "'s live_store \<Rightarrow> int list \<Rightarrow> 's machine \<Rightarrow> (error + string) \<times> 's machine" where
  "get_document_pages_by_ref L pages m =
     (if pages = [] then (Inr ''No pages specified.'', m)
      else
        (case (if length pages = 1 then get_by_ref L (WherePage (pages ! 0)) m
               else get_by_ref L (WhereOr (map WherePage pages)) m) of
           (Inl e, m1) \<Rightarrow> (Inl e, m1)
         | (Inr (docs, mds), m1) \<Rightarrow>
             if docs = []
             then (Inr (''No content found for pages: '' @ str_int_list pages), m1)
             else get_document_pages_by_ref_loop [] (zip docs mds) m1))"

fun page_filter_by_ref_loop ::
  "string \<Rightarrow> nat \<Rightarrow> nat list \<Rightarrow> 's machine \<Rightarrow> string \<times> 's machine" where
  "page_filter_by_ref_loop output i [] m = (output, m)"
| "page_filter_by_ref_loop output i (r # rest) m =
     (let res = chunk_objects m r
      in page_filter_by_ref_loop
           (output @ entry i (page_label res) (page_filter_content res)) (Suc i) rest m)"

definition search_with_page_filter_by_ref ::
  "'s live_store \<Rightarrow> string \<Rightarrow> int \<Rightarrow> int \<Rightarrow> int \<Rightarrow> 's machine
     \<Rightarrow> (error + string) \<times> 's machine" where
  "search_with_page_filter_by_ref L query start_page end_page k m =
     (case similarity_search_by_ref L query (k * 3) m of
        (Inl e, m1) \<Rightarrow> (Inl e, m1)
      | (Inr results, m1) \<Rightarrow>
          (let filtered =
                 slice_to k
                   (filter (\<lambda>r. page_in_range start_page end_page (chunk_objects m1 r)) results)
           in if filtered = []
              then (Inr (''No results found in pages '' @ str_int start_page @ ''-''
                         @ str_int end_page @ ''.''), m1)
              else (case page_filter_by_ref_loop
                           (''Found '' @ str_nat (length filtered) @ '' results in pages ''
                            @ str_int start_page @ ''-'' @ str_int end_page @ '':'' @ nl @ nl)
                           1 filtered m1 of
                      (output, m2) \<Rightarrow> (Inr output, m2))))"

fun find_pages_by_ref_loop ::
  "'s live_store \<Rightarrow> int set \<Rightarrow> string list \<Rightarrow> 's machine \<Rightarrow> (error + int set) \<times> 's machine" where
  "find_pages_by_ref_loop L all_pages [] m = (Inr all_pages, m)"
| "find_pages_by_ref_loop L all_pages (keyword # rest) m =
     (case similarity_search_by_ref L keyword 10 m of
        (Inl e, m1) \<Rightarrow> (Inl e, m1)
      | (Inr results, m1) \<Rightarrow>
          find_pages_by_ref_loop L
            (all_pages \<union> set (keyword_pages (map (chunk_objects m1) results))) rest m1)"

definition find_pages_by_keywords_by_ref ::
  "'s live_store \<Rightarrow> string list \<Rightarrow> 's machine \<Rightarrow> (error + string) \<times> 's machine" where
  "find_pages_by_keywords_by_ref L keywords m =
     (if keywords = [] then (Inr ''No keywords provided.'', m)
      else
        (case find_pages_by_ref_loop L {} keywords m of
           (Inl e, m1) \<Rightarrow> (Inl e, m1)
         | (Inr all_pages, m1) \<Rightarrow>
             if all_pages = {}
             then (Inr (''No pages found containing keywords: '' @ str_str_list keywords), m1)
             else
               (let sorted_pages = sorted_list_of_set all_pages
                in (Inr (''Found '' @ str_nat (length sorted_pages)
                         @ '' pages containing keywords '' @ str_str_list keywords @ '':'' @ nl
                         @ ''Pages: '' @ str_int_list sorted_pages), m1))))"

text \<open>
  The \<^verbatim>\<open>Document\<close> objects and the dictionary objects in use, in address order; and the
  chunks the store hands out one keyword after the other, up to the first search that
  raises.
\<close>

definition live_chunks :: "'s machine \<Rightarrow> document list" where
  "live_chunks m = map (chunk_objects m) [0 ..< chunk_count m]"

definition live_dicts :: "'s machine \<Rightarrow> metadata list" where
  "live_dicts m = map (dict_objects m) [0 ..< dict_count m]"

fun handed_out :: "'s backend \<Rightarrow> 's \<Rightarrow> string list \<Rightarrow> document list" where
  "handed_out B s [] = []"
| "handed_out B s (keyword # rest) =
     (case similarity_search B s keyword 10 of
        Inl e \<Rightarrow> []
      | Inr answer \<Rightarrow> answer @ handed_out B s rest)"

text \<open>A state with no object in use.\<close>

definition m0 :: "unit machine" where
  "m0 = \<lparr>store_handle = (), chunk_objects = (\<lambda>a. chunk [] None), chunk_count = 0,
          dict_objects = (\<lambda>a. Map.empty), dict_count = 0\<rparr>"

section \<open>The rendered list of entries\<close>

text \<open>
  What the two rendering loops append to their header: one entry per chunk, numbered
  from \<open>i\<close>, in the order of the list.
\<close>

definition entries :: "(document \<Rightarrow> string) \<Rightarrow> nat \<Rightarrow> document list \<Rightarrow> string" where
  "entries content i results =
     concat (map (\<lambda>(j, res). entry j (page_label res) (content res))
                 (zip [i ..< i + length results] results))"

lemma upt_length_Cons:
  "[i ..< i + length (x # xs)] = i # [Suc i ..< Suc i + length xs]"
proof -
  have "i < i + length (x # xs)" by simp
  then have "[i ..< i + length (x # xs)] = i # [Suc i ..< i + length (x # xs)]"
    by (rule upt_conv_Cons)
  then show ?thesis by simp
qed

lemma semantic_search_loop_entries:
  "semantic_search_loop acc i results = acc @ entries semantic_search_content i results"
proof (induction results arbitrary: acc i)
  case Nil
  show ?case by (simp add: entries_def)
next
  case (Cons res rest)
  show ?case
    using Cons.IH [of "acc @ entry i (page_label res) (semantic_search_content res)" "Suc i"]
      upt_length_Cons [of i res rest]
    by (simp add: entries_def)
qed

lemma page_filter_loop_entries:
  "page_filter_loop acc i results = acc @ entries page_filter_content i results"
proof (induction results arbitrary: acc i)
  case Nil
  show ?case by (simp add: entries_def)
next
  case (Cons res rest)
  show ?case
    using Cons.IH [of "acc @ entry i (page_label res) (page_filter_content res)" "Suc i"]
      upt_length_Cons [of i res rest]
    by (simp add: entries_def)
qed

section \<open>\<^verbatim>\<open>semantic_search\<close>: the sentinel and the header\<close>

lemma semantic_search_answer:
  assumes "similarity_search B (vector_store w) q k = Inr rs"
  shows "fst (semantic_search B q k w) =
           Inr (if rs = [] then ''No results found for the query.''
                else ''Found '' @ str_nat (length rs) @ '' relevant passages:'' @ nl @ nl
                     @ entries semantic_search_content 1 rs)"
  using assms
  by (simp add: semantic_search_def call_similarity_search_def semantic_search_loop_entries)

lemma semantic_search_raise:
  assumes "similarity_search B (vector_store w) q k = Inl e"
  shows "fst (semantic_search B q k w) = Inl e"
  using assms by (simp add: semantic_search_def call_similarity_search_def)

text \<open>
  Claim C2. \<^verbatim>\<open>semantic_search(q, k)\<close> returns exactly
  \<^verbatim>\<open>"No results found for the query."\<close> if and only if the store's similarity search
  answers with zero chunks; and when the store answers with \<open>N > 0\<close> chunks the call
  returns a string that contains \<^verbatim>\<open>"Found N relevant passages"\<close>, \<open>N\<close> being the number
  of chunks of the answer.
\<close>

theorem semantic_search_sentinel_iff:
  "(fst (semantic_search B q k w) = Inr ''No results found for the query.''
      \<longleftrightarrow> similarity_search B (vector_store w) q k = Inr [])
   \<and> (\<forall>rs. similarity_search B (vector_store w) q k = Inr rs \<and> rs \<noteq> [] \<longrightarrow>
         (\<exists>out. fst (semantic_search B q k w) = Inr out
            \<and> sublist (''Found '' @ str_nat (length rs) @ '' relevant passages'') out))"
proof (cases "similarity_search B (vector_store w) q k")
  case (Inl e)
  then show ?thesis by (simp add: semantic_search_raise)
next
  case (Inr rs)
  show ?thesis
  proof (cases "rs = []")
    case True
    with Inr show ?thesis by (simp add: semantic_search_answer)
  next
    case False
    let ?hit = "''Found '' @ str_nat (length rs) @ '' relevant passages''"
    let ?out = "?hit @ '':'' @ nl @ nl @ entries semantic_search_content 1 rs"
    have out: "fst (semantic_search B q k w) = Inr ?out"
      using Inr False by (simp add: semantic_search_answer)
    have "sublist ?hit ([] @ ?hit @ ('':'' @ nl @ nl @ entries semantic_search_content 1 rs))"
      unfolding sublist_def by blast
    then have sub: "sublist ?hit ?out" by simp
    have "?out \<noteq> ''No results found for the query.''" by simp
    with out sub Inr False show ?thesis by simp
  qed
qed

theorem semantic_search_sentinel_iff_witness:
  "fst (semantic_search (fixed_store (\<lambda>q. []) no_documents) ''esg'' 5 w0)
     = Inr ''No results found for the query.''
   \<and> (\<exists>out. fst (semantic_search
                    (fixed_store (\<lambda>q. [chunk ''abc'' (Some 4), chunk ''def'' None]) no_documents)
                    ''esg'' 5 w0) = Inr out
        \<and> sublist ''Found 2 relevant passages'' out)"
proof -
  let ?B0 = "fixed_store (\<lambda>q. []) no_documents"
  let ?rs = "[chunk ''abc'' (Some 4), chunk ''def'' None]"
  let ?B1 = "fixed_store (\<lambda>q. ?rs) no_documents"
  have a: "similarity_search ?B0 (vector_store w0) ''esg'' 5 = Inr []"
    by (simp add: fixed_store_def)
  have b: "similarity_search ?B1 (vector_store w0) ''esg'' 5 = Inr ?rs \<and> ?rs \<noteq> []"
    by (simp add: fixed_store_def)
  have n: "str_nat (length ?rs) = ''2''"
    by code_simp
  have first: "fst (semantic_search ?B0 ''esg'' 5 w0) = Inr ''No results found for the query.''"
    using semantic_search_sentinel_iff [of ?B0 "''esg''" 5 w0] a by blast
  have "\<exists>out. fst (semantic_search ?B1 ''esg'' 5 w0) = Inr out
          \<and> sublist (''Found '' @ str_nat (length ?rs) @ '' relevant passages'') out"
    using semantic_search_sentinel_iff [of ?B1 "''esg''" 5 w0] b by blast
  then have second: "\<exists>out. fst (semantic_search ?B1 ''esg'' 5 w0) = Inr out
          \<and> sublist ''Found 2 relevant passages'' out"
    unfolding n by simp
  from first second show ?thesis by blast
qed

section \<open>\<^verbatim>\<open>get_document_pages\<close>: the empty list\<close>

text \<open>
  Claim C6. \<^verbatim>\<open>get_document_pages([])\<close> returns exactly \<^verbatim>\<open>"No pages specified."\<close> and
  invokes the store not at all: the state, with its sequence of invocations, is the one
  the call started in, whatever the store would have answered.
\<close>

theorem get_document_pages_empty:
  "get_document_pages B [] w = (Inr ''No pages specified.'', w)"
  by (simp add: get_document_pages_def)

section \<open>Truncation of the rendered content\<close>





section \<open>\<^verbatim>\<open>get_document_pages\<close>: the filter issued and the empty answer\<close>

lemma get_document_pages_single:
  "get_document_pages B [p] w =
     (case get B (vector_store w) (WherePage p) of
        Inl e \<Rightarrow> Inl e
      | Inr context \<Rightarrow>
          if documents context = [] then Inr (''No content found for pages: '' @ str_int_list [p])
          else get_document_pages_loop [] (zip (documents context) (metadatas context)),
      w\<lparr>calls := calls w @ [GetCall (WherePage p)]\<rparr>)"
  by (simp add: get_document_pages_def call_get_def split: sum.splits)

lemma get_document_pages_several:
  assumes "2 \<le> length pages"
  shows "get_document_pages B pages w =
     (case get B (vector_store w) (WhereOr (map WherePage pages)) of
        Inl e \<Rightarrow> Inl e
      | Inr context \<Rightarrow>
          if documents context = [] then Inr (''No content found for pages: '' @ str_int_list pages)
          else get_document_pages_loop [] (zip (documents context) (metadatas context)),
      w\<lparr>calls := calls w @ [GetCall (WhereOr (map WherePage pages))]\<rparr>)"
proof -
  from assms have "pages \<noteq> []" "length pages \<noteq> 1" by auto
  then show ?thesis
    by (simp add: get_document_pages_def call_get_def split: sum.splits)
qed

text \<open>
  Claim C5. For a singleton list \<^verbatim>\<open>[p]\<close>, \<^verbatim>\<open>get_document_pages\<close> issues one \<^verbatim>\<open>get\<close> with
  the exact-match filter \<^verbatim>\<open>{"page": p}\<close>; for a list of two or more pages it issues one
  \<^verbatim>\<open>get\<close> with the disjunction \<^verbatim>\<open>{"$or": [{"page": i} for i in pages]}\<close>, one exact-match
  clause per element; in both cases, when the store answers with no documents, the
  result is \<^verbatim>\<open>"No content found for pages: "\<close> followed by the requested list as Python
  prints it.
\<close>

theorem get_document_pages_filters:
  "calls (snd (get_document_pages B [p] w)) = calls w @ [GetCall (WherePage p)]
   \<and> (2 \<le> length pages \<longrightarrow>
        calls (snd (get_document_pages B pages w))
          = calls w @ [GetCall (WhereOr (map WherePage pages))])
   \<and> (get B (vector_store w) (WherePage p) = Inr context \<and> documents context = [] \<longrightarrow>
        fst (get_document_pages B [p] w)
          = Inr (''No content found for pages: '' @ str_int_list [p]))
   \<and> (2 \<le> length pages
        \<and> get B (vector_store w) (WhereOr (map WherePage pages)) = Inr context
        \<and> documents context = [] \<longrightarrow>
        fst (get_document_pages B pages w)
          = Inr (''No content found for pages: '' @ str_int_list pages))"
proof -
  have a: "calls (snd (get_document_pages B [p] w)) = calls w @ [GetCall (WherePage p)]"
    by (simp add: get_document_pages_single)
  have b: "2 \<le> length pages \<longrightarrow>
        calls (snd (get_document_pages B pages w))
          = calls w @ [GetCall (WhereOr (map WherePage pages))]"
    by (simp add: get_document_pages_several)
  have c: "get B (vector_store w) (WherePage p) = Inr context \<and> documents context = [] \<longrightarrow>
        fst (get_document_pages B [p] w)
          = Inr (''No content found for pages: '' @ str_int_list [p])"
    by (simp add: get_document_pages_single)
  have d: "2 \<le> length pages
        \<and> get B (vector_store w) (WhereOr (map WherePage pages)) = Inr context
        \<and> documents context = [] \<longrightarrow>
        fst (get_document_pages B pages w)
          = Inr (''No content found for pages: '' @ str_int_list pages)"
    by (simp add: get_document_pages_several)
  from a b c d show ?thesis by blast
qed

theorem get_document_pages_filters_witness:
  "calls (snd (get_document_pages (fixed_store (\<lambda>q. []) no_documents) [7] w0))
     = [GetCall (WherePage 7)]
   \<and> calls (snd (get_document_pages (fixed_store (\<lambda>q. []) no_documents) [3, 5] w0))
     = [GetCall (WhereOr [WherePage 3, WherePage 5])]
   \<and> fst (get_document_pages (fixed_store (\<lambda>q. []) no_documents) [7] w0)
     = Inr ''No content found for pages: [7]''
   \<and> fst (get_document_pages (fixed_store (\<lambda>q. []) no_documents) [3, 5] w0)
     = Inr ''No content found for pages: [3, 5]''"
proof -
  let ?B = "fixed_store (\<lambda>q. []) no_documents"
  have g: "get ?B (vector_store w0) (WherePage 7) = Inr no_documents"
    "get ?B (vector_store w0) (WhereOr (map WherePage [3, 5])) = Inr no_documents"
    "documents no_documents = []" "(2::nat) \<le> length [3, 5 :: int]"
    by (simp_all add: fixed_store_def no_documents_def)
  have s: "str_int_list [7] = ''[7]''" "str_int_list [3, 5] = ''[3, 5]''"
    by code_simp+
  have c: "calls w0 = []" by (simp add: w0_def)
  show ?thesis
    using get_document_pages_filters [of ?B 7 w0 "[3, 5]" no_documents] g s c
    by simp
qed

section \<open>Nothing is written: the store and the chunks after a call\<close>

lemma new_chunks_effect:
  "store_handle (snd (new_chunks ds m)) = store_handle m
   \<and> dict_objects (snd (new_chunks ds m)) = dict_objects m
   \<and> dict_count (snd (new_chunks ds m)) = dict_count m
   \<and> chunk_count (snd (new_chunks ds m)) = chunk_count m + length ds
   \<and> fst (new_chunks ds m) = [chunk_count m ..< chunk_count m + length ds]
   \<and> (\<forall>a < chunk_count m. chunk_objects (snd (new_chunks ds m)) a = chunk_objects m a)
   \<and> map (chunk_objects (snd (new_chunks ds m))) (fst (new_chunks ds m)) = ds"
proof (induction ds arbitrary: m)
  case Nil
  show ?case by simp
next
  case (Cons d ds)
  let ?m1 = "m\<lparr>chunk_objects := (chunk_objects m)(chunk_count m := d),
                chunk_count := Suc (chunk_count m)\<rparr>"
  let ?X = "new_chunks ds ?m1"
  have step: "new_chunks (d # ds) m = (chunk_count m # fst ?X, snd ?X)"
    by (simp add: new_chunk_def split: prod.splits)
  have j1: "store_handle (snd ?X) = store_handle ?m1"
    and j2: "dict_objects (snd ?X) = dict_objects ?m1"
    and j3: "dict_count (snd ?X) = dict_count ?m1"
    and j4: "chunk_count (snd ?X) = chunk_count ?m1 + length ds"
    and j5: "fst ?X = [chunk_count ?m1 ..< chunk_count ?m1 + length ds]"
    and j6: "\<forall>a < chunk_count ?m1. chunk_objects (snd ?X) a = chunk_objects ?m1 a"
    and i7: "map (chunk_objects (snd ?X)) (fst ?X) = ds"
    using Cons.IH [of ?m1] by blast+
  have c1: "chunk_count ?m1 = Suc (chunk_count m)" by simp
  have i1: "store_handle (snd ?X) = store_handle m" using j1 by simp
  have i2: "dict_objects (snd ?X) = dict_objects m" using j2 by simp
  have i3: "dict_count (snd ?X) = dict_count m" using j3 by simp
  have i4: "chunk_count (snd ?X) = Suc (chunk_count m) + length ds"
    using j4 unfolding c1 .
  have i5: "fst ?X = [Suc (chunk_count m) ..< Suc (chunk_count m) + length ds]"
    using j5 unfolding c1 .
  have i6: "\<forall>a < Suc (chunk_count m). chunk_objects (snd ?X) a = chunk_objects ?m1 a"
    using j6 unfolding c1 .
  have g5: "fst (new_chunks (d # ds) m) = [chunk_count m ..< chunk_count m + length (d # ds)]"
    unfolding step upt_length_Cons [of "chunk_count m" d ds] fst_conv i5 ..
  have g6: "\<forall>a < chunk_count m. chunk_objects (snd (new_chunks (d # ds) m)) a = chunk_objects m a"
    unfolding step using i6 by simp
  have "chunk_objects (snd ?X) (chunk_count m) = d"
    using i6 by simp
  then have g7: "map (chunk_objects (snd (new_chunks (d # ds) m))) (fst (new_chunks (d # ds) m))
                   = d # ds"
    unfolding step using i7 by simp
  have g1: "store_handle (snd (new_chunks (d # ds) m)) = store_handle m"
    and g2: "dict_objects (snd (new_chunks (d # ds) m)) = dict_objects m"
    and g3: "dict_count (snd (new_chunks (d # ds) m)) = dict_count m"
    and g4: "chunk_count (snd (new_chunks (d # ds) m)) = chunk_count m + length (d # ds)"
    unfolding step using i1 i2 i3 i4 by simp_all
  from g1 g2 g3 g4 g5 g6 g7 show ?case by blast
qed

lemma new_chunks_live:
  "live_chunks (snd (new_chunks ds m)) = live_chunks m @ ds"
proof -
  let ?m' = "snd (new_chunks ds m)"
  let ?n = "chunk_count m"
  have e: "chunk_count ?m' = ?n + length ds"
    and r: "fst (new_chunks ds m) = [?n ..< ?n + length ds]"
    and old: "\<forall>a < ?n. chunk_objects ?m' a = chunk_objects m a"
    and new: "map (chunk_objects ?m') (fst (new_chunks ds m)) = ds"
    using new_chunks_effect [of ds m] by blast+
  have "[0 ..< ?n + length ds] = [0 ..< ?n] @ [?n ..< ?n + length ds]"
    by (rule upt_add_eq_append) simp
  then have "live_chunks ?m' = map (chunk_objects ?m') [0 ..< ?n]
                                 @ map (chunk_objects ?m') [?n ..< ?n + length ds]"
    by (simp add: live_chunks_def e)
  moreover have "map (chunk_objects ?m') [0 ..< ?n] = map (chunk_objects m) [0 ..< ?n]"
    using old by simp
  ultimately show ?thesis using new r by (simp add: live_chunks_def)
qed

lemma new_dicts_effect:
  "store_handle (snd (new_dicts ds m)) = store_handle m
   \<and> chunk_objects (snd (new_dicts ds m)) = chunk_objects m
   \<and> chunk_count (snd (new_dicts ds m)) = chunk_count m
   \<and> dict_count (snd (new_dicts ds m)) = dict_count m + length ds
   \<and> fst (new_dicts ds m) = [dict_count m ..< dict_count m + length ds]
   \<and> (\<forall>a < dict_count m. dict_objects (snd (new_dicts ds m)) a = dict_objects m a)
   \<and> map (dict_objects (snd (new_dicts ds m))) (fst (new_dicts ds m)) = ds"
proof (induction ds arbitrary: m)
  case Nil
  show ?case by simp
next
  case (Cons d ds)
  let ?m1 = "m\<lparr>dict_objects := (dict_objects m)(dict_count m := d),
                dict_count := Suc (dict_count m)\<rparr>"
  let ?X = "new_dicts ds ?m1"
  have step: "new_dicts (d # ds) m = (dict_count m # fst ?X, snd ?X)"
    by (simp add: new_dict_def split: prod.splits)
  have j1: "store_handle (snd ?X) = store_handle ?m1"
    and j2: "chunk_objects (snd ?X) = chunk_objects ?m1"
    and j3: "chunk_count (snd ?X) = chunk_count ?m1"
    and j4: "dict_count (snd ?X) = dict_count ?m1 + length ds"
    and j5: "fst ?X = [dict_count ?m1 ..< dict_count ?m1 + length ds]"
    and j6: "\<forall>a < dict_count ?m1. dict_objects (snd ?X) a = dict_objects ?m1 a"
    and i7: "map (dict_objects (snd ?X)) (fst ?X) = ds"
    using Cons.IH [of ?m1] by blast+
  have c1: "dict_count ?m1 = Suc (dict_count m)" by simp
  have i1: "store_handle (snd ?X) = store_handle m" using j1 by simp
  have i2: "chunk_objects (snd ?X) = chunk_objects m" using j2 by simp
  have i3: "chunk_count (snd ?X) = chunk_count m" using j3 by simp
  have i4: "dict_count (snd ?X) = Suc (dict_count m) + length ds"
    using j4 unfolding c1 .
  have i5: "fst ?X = [Suc (dict_count m) ..< Suc (dict_count m) + length ds]"
    using j5 unfolding c1 .
  have i6: "\<forall>a < Suc (dict_count m). dict_objects (snd ?X) a = dict_objects ?m1 a"
    using j6 unfolding c1 .
  have g5: "fst (new_dicts (d # ds) m) = [dict_count m ..< dict_count m + length (d # ds)]"
    unfolding step upt_length_Cons [of "dict_count m" d ds] fst_conv i5 ..
  have g6: "\<forall>a < dict_count m. dict_objects (snd (new_dicts (d # ds) m)) a = dict_objects m a"
    unfolding step using i6 by simp
  have "dict_objects (snd ?X) (dict_count m) = d"
    using i6 by simp
  then have g7: "map (dict_objects (snd (new_dicts (d # ds) m))) (fst (new_dicts (d # ds) m))
                   = d # ds"
    unfolding step using i7 by simp
  have g1: "store_handle (snd (new_dicts (d # ds) m)) = store_handle m"
    and g2: "chunk_objects (snd (new_dicts (d # ds) m)) = chunk_objects m"
    and g3: "chunk_count (snd (new_dicts (d # ds) m)) = chunk_count m"
    and g4: "dict_count (snd (new_dicts (d # ds) m)) = dict_count m + length (d # ds)"
    unfolding step using i1 i2 i3 i4 by simp_all
  from g1 g2 g3 g4 g5 g6 g7 show ?case by blast
qed

lemma new_dicts_live:
  "live_dicts (snd (new_dicts ds m)) = live_dicts m @ ds"
proof -
  let ?m' = "snd (new_dicts ds m)"
  let ?n = "dict_count m"
  have e: "dict_count ?m' = ?n + length ds"
    and r: "fst (new_dicts ds m) = [?n ..< ?n + length ds]"
    and old: "\<forall>a < ?n. dict_objects ?m' a = dict_objects m a"
    and new: "map (dict_objects ?m') (fst (new_dicts ds m)) = ds"
    using new_dicts_effect [of ds m] by blast+
  have "[0 ..< ?n + length ds] = [0 ..< ?n] @ [?n ..< ?n + length ds]"
    by (rule upt_add_eq_append) simp
  then have "live_dicts ?m' = map (dict_objects ?m') [0 ..< ?n]
                                 @ map (dict_objects ?m') [?n ..< ?n + length ds]"
    by (simp add: live_dicts_def e)
  moreover have "map (dict_objects ?m') [0 ..< ?n] = map (dict_objects m) [0 ..< ?n]"
    using old by simp
  ultimately show ?thesis using new r by (simp add: live_dicts_def)
qed

lemma new_chunks_dicts: "live_dicts (snd (new_chunks ds m)) = live_dicts m"
  using new_chunks_effect [of ds m] by (simp add: live_dicts_def)

lemma new_dicts_chunks: "live_chunks (snd (new_dicts ds m)) = live_chunks m"
  using new_dicts_effect [of ds m] by (simp add: live_chunks_def)

lemma new_chunks_store: "store_handle (snd (new_chunks ds m)) = store_handle m"
  using new_chunks_effect [of ds m] by blast

lemma new_dicts_store: "store_handle (snd (new_dicts ds m)) = store_handle m"
  using new_dicts_effect [of ds m] by blast

lemma new_chunks_read: "map (chunk_objects (snd (new_chunks ds m))) (fst (new_chunks ds m)) = ds"
  using new_chunks_effect [of ds m] by blast

lemma new_dicts_read: "map (dict_objects (snd (new_dicts ds m))) (fst (new_dicts ds m)) = ds"
  using new_dicts_effect [of ds m] by blast

lemma live_chunks_store: "live_chunks (m\<lparr>store_handle := s\<rparr>) = live_chunks m"
  by (simp add: live_chunks_def)

lemma live_dicts_store: "live_dicts (m\<lparr>store_handle := s\<rparr>) = live_dicts m"
  by (simp add: live_dicts_def)

lemma similarity_search_by_ref_effect:
  "store_handle (snd (similarity_search_by_ref L q k m))
     = snd (run_similarity_search L (store_handle m) q k)
   \<and> live_chunks (snd (similarity_search_by_ref L q k m))
     = live_chunks m @ (case fst (run_similarity_search L (store_handle m) q k) of
                          Inl e \<Rightarrow> [] | Inr answer \<Rightarrow> answer)
   \<and> live_dicts (snd (similarity_search_by_ref L q k m)) = live_dicts m"
proof (cases "run_similarity_search L (store_handle m) q k")
  case (Pair r s)
  show ?thesis
  proof (cases r)
    case (Inl e)
    with Pair show ?thesis
      by (simp add: similarity_search_by_ref_def live_chunks_store live_dicts_store)
  next
    case (Inr answer)
    let ?m = "m\<lparr>store_handle := s\<rparr>"
    have "similarity_search_by_ref L q k m
            = (Inr (fst (new_chunks answer ?m)), snd (new_chunks answer ?m))"
      using Pair Inr by (simp add: similarity_search_by_ref_def split: prod.splits)
    then show ?thesis
      using Pair Inr new_chunks_store [of answer ?m] new_chunks_live [of answer ?m]
        new_chunks_dicts [of answer ?m]
      by (simp add: live_chunks_store live_dicts_store)
  qed
qed

lemma similarity_search_by_ref_answer:
  assumes "fst (run_similarity_search L (store_handle m) q k) = Inr answer"
  shows "\<exists>results. fst (similarity_search_by_ref L q k m) = Inr results
           \<and> map (chunk_objects (snd (similarity_search_by_ref L q k m))) results = answer"
proof -
  obtain s where run: "run_similarity_search L (store_handle m) q k = (Inr answer, s)"
    using assms by (cases "run_similarity_search L (store_handle m) q k") simp
  let ?m = "m\<lparr>store_handle := s\<rparr>"
  have "similarity_search_by_ref L q k m
          = (Inr (fst (new_chunks answer ?m)), snd (new_chunks answer ?m))"
    using run by (simp add: similarity_search_by_ref_def split: prod.splits)
  then show ?thesis using new_chunks_read [of answer ?m] by simp
qed

lemma similarity_search_by_ref_raise:
  assumes "fst (run_similarity_search L (store_handle m) q k) = Inl e"
  shows "fst (similarity_search_by_ref L q k m) = Inl e"
proof -
  obtain s where "run_similarity_search L (store_handle m) q k = (Inl e, s)"
    using assms by (cases "run_similarity_search L (store_handle m) q k") simp
  then show ?thesis by (simp add: similarity_search_by_ref_def)
qed

lemma get_by_ref_effect:
  "store_handle (snd (get_by_ref L flt m)) = snd (run_get L (store_handle m) flt)
   \<and> live_chunks (snd (get_by_ref L flt m)) = live_chunks m
   \<and> live_dicts (snd (get_by_ref L flt m))
     = live_dicts m @ (case fst (run_get L (store_handle m) flt) of
                         Inl e \<Rightarrow> [] | Inr answer \<Rightarrow> metadatas answer)"
proof (cases "run_get L (store_handle m) flt")
  case (Pair r s)
  show ?thesis
  proof (cases r)
    case (Inl e)
    with Pair show ?thesis
      by (simp add: get_by_ref_def live_chunks_store live_dicts_store)
  next
    case (Inr answer)
    let ?m = "m\<lparr>store_handle := s\<rparr>"
    have "get_by_ref L flt m
            = (Inr (documents answer, fst (new_dicts (metadatas answer) ?m)),
               snd (new_dicts (metadatas answer) ?m))"
      using Pair Inr by (simp add: get_by_ref_def split: prod.splits)
    then show ?thesis
      using Pair Inr new_dicts_store [of "metadatas answer" ?m]
        new_dicts_live [of "metadatas answer" ?m] new_dicts_chunks [of "metadatas answer" ?m]
      by (simp add: live_chunks_store live_dicts_store)
  qed
qed

lemma get_by_ref_answer:
  assumes "fst (run_get L (store_handle m) flt) = Inr answer"
  shows "\<exists>mds. fst (get_by_ref L flt m) = Inr (documents answer, mds)
           \<and> map (dict_objects (snd (get_by_ref L flt m))) mds = metadatas answer"
proof -
  obtain s where run: "run_get L (store_handle m) flt = (Inr answer, s)"
    using assms by (cases "run_get L (store_handle m) flt") simp
  let ?m = "m\<lparr>store_handle := s\<rparr>"
  have "get_by_ref L flt m
          = (Inr (documents answer, fst (new_dicts (metadatas answer) ?m)),
             snd (new_dicts (metadatas answer) ?m))"
    using run by (simp add: get_by_ref_def split: prod.splits)
  then show ?thesis using new_dicts_read [of "metadatas answer" ?m] by simp
qed

lemma get_by_ref_raise:
  assumes "fst (run_get L (store_handle m) flt) = Inl e"
  shows "fst (get_by_ref L flt m) = Inl e"
proof -
  obtain s where "run_get L (store_handle m) flt = (Inl e, s)"
    using assms by (cases "run_get L (store_handle m) flt") simp
  then show ?thesis by (simp add: get_by_ref_def)
qed

lemma semantic_search_by_ref_loop_reads:
  "semantic_search_by_ref_loop acc i refs m
     = (semantic_search_loop acc i (map (chunk_objects m) refs), m)"
  by (induction refs arbitrary: acc i) (simp_all add: Let_def)

lemma page_filter_by_ref_loop_reads:
  "page_filter_by_ref_loop acc i refs m
     = (page_filter_loop acc i (map (chunk_objects m) refs), m)"
  by (induction refs arbitrary: acc i) (simp_all add: Let_def)

lemma get_document_pages_by_ref_loop_reads:
  "snd (get_document_pages_by_ref_loop acc pairs m) = m
   \<and> fst (get_document_pages_by_ref_loop acc pairs m)
       = get_document_pages_loop acc (map (\<lambda>(doc, r). (doc, dict_objects m r)) pairs)"
proof (induction pairs arbitrary: acc)
  case Nil
  show ?case by simp
next
  case (Cons pr rest)
  obtain doc r where pr: "pr = (doc, r)" by (cases pr)
  show ?case
  proof (cases "dict_objects m r ''page''")
    case None
    with pr show ?thesis by simp
  next
    case (Some p)
    with pr Cons.IH show ?thesis by simp
  qed
qed

lemma read_only_search:
  "run_similarity_search (read_only B) s q k = (similarity_search B s q k, s)"
  by (simp add: read_only_def)

lemma read_only_get:
  "run_get (read_only B) s flt = (get B s flt, s)"
  by (simp add: read_only_def)

lemma slice_to_map: "map f (slice_to k xs) = slice_to k (map f xs)"
  by (simp add: slice_to_def take_map)

lemma semantic_search_by_ref_frame:
  "snd (semantic_search_by_ref L q k m) = snd (similarity_search_by_ref L q k m)"
proof (cases "similarity_search_by_ref L q k m")
  case (Pair r m1)
  then show ?thesis
    by (cases r) (simp_all add: semantic_search_by_ref_def semantic_search_by_ref_loop_reads)
qed

lemma search_with_page_filter_by_ref_frame:
  "snd (search_with_page_filter_by_ref L q start_page end_page k m)
     = snd (similarity_search_by_ref L q (k * 3) m)"
proof (cases "similarity_search_by_ref L q (k * 3) m")
  case (Pair r m1)
  then show ?thesis
    by (cases r)
      (simp_all add: search_with_page_filter_by_ref_def Let_def page_filter_by_ref_loop_reads)
qed

lemma get_document_pages_by_ref_frame:
  "snd (get_document_pages_by_ref L pages m)
     = (if pages = [] then m
        else snd (get_by_ref L (if length pages = 1 then WherePage (pages ! 0)
                                else WhereOr (map WherePage pages)) m))"
proof (cases "pages = []")
  case True
  then show ?thesis by (simp add: get_document_pages_by_ref_def)
next
  case False
  let ?flt = "if length pages = 1 then WherePage (pages ! 0) else WhereOr (map WherePage pages)"
  have sel: "(if length pages = 1 then get_by_ref L (WherePage (pages ! 0)) m
              else get_by_ref L (WhereOr (map WherePage pages)) m) = get_by_ref L ?flt m"
    by simp
  show ?thesis
  proof (cases "get_by_ref L ?flt m")
    case (Pair r m1)
    show ?thesis
    proof (cases r)
      case (Inl e)
      with Pair False show ?thesis
        unfolding get_document_pages_by_ref_def sel by simp
    next
      case (Inr ans)
      obtain docs mds where ans: "ans = (docs, mds)" by (cases ans)
      with Pair Inr False show ?thesis
        unfolding get_document_pages_by_ref_def sel
        using get_document_pages_by_ref_loop_reads [of "[]" "zip docs mds" m1]
        by simp
    qed
  qed
qed

lemma semantic_search_by_ref_output:
  assumes "vector_store w = store_handle m"
  shows "fst (semantic_search_by_ref (read_only B) q k m) = fst (semantic_search B q k w)"
proof (cases "similarity_search B (store_handle m) q k")
  case (Inl e)
  then have "fst (run_similarity_search (read_only B) (store_handle m) q k) = Inl e"
    by (simp add: read_only_search)
  then have "fst (similarity_search_by_ref (read_only B) q k m) = Inl e"
    by (rule similarity_search_by_ref_raise)
  then have "fst (semantic_search_by_ref (read_only B) q k m) = Inl e"
    by (cases "similarity_search_by_ref (read_only B) q k m")
      (simp add: semantic_search_by_ref_def)
  moreover have "fst (semantic_search B q k w) = Inl e"
    using Inl assms by (simp add: semantic_search_raise)
  ultimately show ?thesis by simp
next
  case (Inr rs)
  then have "fst (run_similarity_search (read_only B) (store_handle m) q k) = Inr rs"
    by (simp add: read_only_search)
  then obtain results where res: "fst (similarity_search_by_ref (read_only B) q k m) = Inr results"
    and rd: "map (chunk_objects (snd (similarity_search_by_ref (read_only B) q k m))) results = rs"
    using similarity_search_by_ref_answer by blast
  from rd have len: "length results = length rs" and emp: "results = [] \<longleftrightarrow> rs = []"
    by auto
  obtain m1 where pr: "similarity_search_by_ref (read_only B) q k m = (Inr results, m1)"
    using res by (cases "similarity_search_by_ref (read_only B) q k m") simp
  with rd have rd1: "map (chunk_objects m1) results = rs" by simp
  have "fst (semantic_search_by_ref (read_only B) q k m)
          = Inr (if rs = [] then ''No results found for the query.''
                 else semantic_search_loop
                        (''Found '' @ str_nat (length rs) @ '' relevant passages:'' @ nl @ nl)
                        1 rs)"
    using pr rd1 len emp
    by (simp add: semantic_search_by_ref_def semantic_search_by_ref_loop_reads)
  moreover have "fst (semantic_search B q k w)
          = Inr (if rs = [] then ''No results found for the query.''
                 else semantic_search_loop
                        (''Found '' @ str_nat (length rs) @ '' relevant passages:'' @ nl @ nl)
                        1 rs)"
    using Inr assms by (simp add: semantic_search_def call_similarity_search_def)
  ultimately show ?thesis by simp
qed

lemma search_with_page_filter_by_ref_output:
  assumes "vector_store w = store_handle m"
  shows "fst (search_with_page_filter_by_ref (read_only B) q start_page end_page k m)
           = fst (search_with_page_filter B q start_page end_page k w)"
proof (cases "similarity_search B (store_handle m) q (k * 3)")
  case (Inl e)
  then have "fst (run_similarity_search (read_only B) (store_handle m) q (k * 3)) = Inl e"
    by (simp add: read_only_search)
  then have "fst (similarity_search_by_ref (read_only B) q (k * 3) m) = Inl e"
    by (rule similarity_search_by_ref_raise)
  then have "fst (search_with_page_filter_by_ref (read_only B) q start_page end_page k m) = Inl e"
    by (cases "similarity_search_by_ref (read_only B) q (k * 3) m")
      (simp add: search_with_page_filter_by_ref_def)
  moreover have "fst (search_with_page_filter B q start_page end_page k w) = Inl e"
    using Inl assms by (simp add: search_with_page_filter_def call_similarity_search_def)
  ultimately show ?thesis by simp
next
  case (Inr rs)
  let ?P = "page_in_range start_page end_page"
  from Inr have "fst (run_similarity_search (read_only B) (store_handle m) q (k * 3)) = Inr rs"
    by (simp add: read_only_search)
  then obtain results where
    res: "fst (similarity_search_by_ref (read_only B) q (k * 3) m) = Inr results"
    and rd: "map (chunk_objects (snd (similarity_search_by_ref (read_only B) q (k * 3) m))) results
               = rs"
    using similarity_search_by_ref_answer by blast
  obtain m1 where pr: "similarity_search_by_ref (read_only B) q (k * 3) m = (Inr results, m1)"
    using res by (cases "similarity_search_by_ref (read_only B) q (k * 3) m") simp
  with rd have rd1: "map (chunk_objects m1) results = rs" by simp
  let ?filtered = "slice_to k (filter (\<lambda>r. ?P (chunk_objects m1 r)) results)"
  have "map (chunk_objects m1) (filter (\<lambda>r. ?P (chunk_objects m1 r)) results) = filter ?P rs"
    unfolding rd1 [symmetric] by (simp add: filter_map comp_def)
  then have fl: "map (chunk_objects m1) ?filtered = filtered_results start_page end_page k rs"
    by (simp add: slice_to_map filtered_results_def)
  then have len: "length ?filtered = length (filtered_results start_page end_page k rs)"
    by (metis length_map)
  then have emp: "?filtered = [] \<longleftrightarrow> filtered_results start_page end_page k rs = []"
    by (metis length_0_conv)
  have "fst (search_with_page_filter_by_ref (read_only B) q start_page end_page k m)
          = fst (search_with_page_filter B q start_page end_page k w)"
    using pr Inr assms fl len emp
    by (simp add: search_with_page_filter_by_ref_def search_with_page_filter_def
        call_similarity_search_def Let_def page_filter_by_ref_loop_reads)
  then show ?thesis .
qed

lemma get_document_pages_by_ref_output:
  assumes "vector_store w = store_handle m"
  shows "fst (get_document_pages_by_ref (read_only B) pages m) = fst (get_document_pages B pages w)"
proof (cases "pages = []")
  case True
  then show ?thesis by (simp add: get_document_pages_by_ref_def get_document_pages_def)
next
  case False
  let ?flt = "if length pages = 1 then WherePage (pages ! 0) else WhereOr (map WherePage pages)"
  have sel: "(if length pages = 1 then get_by_ref (read_only B) (WherePage (pages ! 0)) m
              else get_by_ref (read_only B) (WhereOr (map WherePage pages)) m)
               = get_by_ref (read_only B) ?flt m"
    by simp
  have sel': "(if length pages = 1 then call_get B (WherePage (pages ! 0)) w
              else call_get B (WhereOr (map WherePage pages)) w) = call_get B ?flt w"
    by simp
  show ?thesis
  proof (cases "get B (store_handle m) ?flt")
    case (Inl e)
    then have "fst (run_get (read_only B) (store_handle m) ?flt) = Inl e"
      by (simp add: read_only_get)
    then have "fst (get_by_ref (read_only B) ?flt m) = Inl e"
      by (rule get_by_ref_raise)
    then have "fst (get_document_pages_by_ref (read_only B) pages m) = Inl e"
      using False unfolding get_document_pages_by_ref_def sel
      by (cases "get_by_ref (read_only B) ?flt m") simp
    moreover have "fst (get_document_pages B pages w) = Inl e"
      using Inl assms False unfolding get_document_pages_def sel'
      by (simp add: call_get_def)
    ultimately show ?thesis by simp
  next
    case (Inr ctx)
    then have "fst (run_get (read_only B) (store_handle m) ?flt) = Inr ctx"
      by (simp add: read_only_get)
    then obtain mds where res: "fst (get_by_ref (read_only B) ?flt m) = Inr (documents ctx, mds)"
      and rd: "map (dict_objects (snd (get_by_ref (read_only B) ?flt m))) mds = metadatas ctx"
      using get_by_ref_answer by blast
    obtain m1 where pr: "get_by_ref (read_only B) ?flt m = (Inr (documents ctx, mds), m1)"
      using res by (cases "get_by_ref (read_only B) ?flt m") simp
    with rd have rd1: "map (dict_objects m1) mds = metadatas ctx" by simp
    have z: "map (\<lambda>(doc, r). (doc, dict_objects m1 r)) (zip (documents ctx) mds)
               = zip (documents ctx) (metadatas ctx)"
      unfolding rd1 [symmetric] by (simp add: zip_map2)
    have "fst (get_document_pages_by_ref (read_only B) pages m)
            = (if documents ctx = []
               then Inr (''No content found for pages: '' @ str_int_list pages)
               else get_document_pages_loop [] (zip (documents ctx) (metadatas ctx)))"
      using False pr z get_document_pages_by_ref_loop_reads [of "[]" "zip (documents ctx) mds" m1]
      unfolding get_document_pages_by_ref_def sel by simp
    moreover have "fst (get_document_pages B pages w)
            = (if documents ctx = []
               then Inr (''No content found for pages: '' @ str_int_list pages)
               else get_document_pages_loop [] (zip (documents ctx) (metadatas ctx)))"
      using Inr assms False unfolding get_document_pages_def sel'
      by (simp add: call_get_def)
    ultimately show ?thesis by simp
  qed
qed

lemma find_pages_by_ref_loop_dicts:
  "live_dicts (snd (find_pages_by_ref_loop L A kws m)) = live_dicts m"
proof (induction kws arbitrary: A m)
  case Nil
  show ?case by simp
next
  case (Cons kw rest)
  have d: "live_dicts (snd (similarity_search_by_ref L kw 10 m)) = live_dicts m"
    using similarity_search_by_ref_effect [of L kw 10 m] by blast
  show ?case
  proof (cases "similarity_search_by_ref L kw 10 m")
    case (Pair r m1)
    show ?thesis
    proof (cases r)
      case (Inl e)
      with Pair d show ?thesis by simp
    next
      case (Inr results)
      with Pair d Cons.IH [of _ m1] show ?thesis by simp
    qed
  qed
qed

lemma find_pages_by_ref_loop_read_only:
  assumes "vector_store w = store_handle m"
  shows "store_handle (snd (find_pages_by_ref_loop (read_only B) A kws m)) = store_handle m
    \<and> live_chunks (snd (find_pages_by_ref_loop (read_only B) A kws m))
        = live_chunks m @ handed_out B (store_handle m) kws
    \<and> fst (find_pages_by_ref_loop (read_only B) A kws m) = fst (find_pages_loop B A kws w)"
  using assms
proof (induction kws arbitrary: A m w)
  case Nil
  show ?case by simp
next
  case (Cons kw rest)
  let ?L = "read_only B"
  have eff: "store_handle (snd (similarity_search_by_ref ?L kw 10 m)) = store_handle m"
    "live_chunks (snd (similarity_search_by_ref ?L kw 10 m))
       = live_chunks m @ (case similarity_search B (store_handle m) kw 10 of
                            Inl e \<Rightarrow> [] | Inr answer \<Rightarrow> answer)"
    using similarity_search_by_ref_effect [of ?L kw 10 m] by (simp_all add: read_only_search)
  show ?case
  proof (cases "similarity_search B (store_handle m) kw 10")
    case (Inl e)
    then have "fst (run_similarity_search ?L (store_handle m) kw 10) = Inl e"
      by (simp add: read_only_search)
    then have "fst (similarity_search_by_ref ?L kw 10 m) = Inl e"
      by (rule similarity_search_by_ref_raise)
    then obtain m1 where pr: "similarity_search_by_ref ?L kw 10 m = (Inl e, m1)"
      by (cases "similarity_search_by_ref ?L kw 10 m") simp
    show ?thesis
      using pr eff Inl Cons.prems by (simp add: call_similarity_search_def)
  next
    case (Inr rs)
    then have "fst (run_similarity_search ?L (store_handle m) kw 10) = Inr rs"
      by (simp add: read_only_search)
    then obtain results where res: "fst (similarity_search_by_ref ?L kw 10 m) = Inr results"
      and rd: "map (chunk_objects (snd (similarity_search_by_ref ?L kw 10 m))) results = rs"
      using similarity_search_by_ref_answer by blast
    obtain m1 where pr: "similarity_search_by_ref ?L kw 10 m = (Inr results, m1)"
      using res by (cases "similarity_search_by_ref ?L kw 10 m") simp
    with rd have rd1: "map (chunk_objects m1) results = rs" by simp
    from pr eff Inr have s1: "store_handle m1 = store_handle m"
      and l1: "live_chunks m1 = live_chunks m @ rs"
      by simp_all
    let ?w1 = "w\<lparr>calls := calls w @ [SimilaritySearchCall kw 10]\<rparr>"
    have "vector_store ?w1 = store_handle m1"
      using Cons.prems s1 by simp
    from Cons.IH [OF this, of "A \<union> set (keyword_pages rs)"]
    show ?thesis
      using pr rd1 Inr Cons.prems s1 l1 by (simp add: call_similarity_search_def)
  qed
qed

lemma find_pages_by_keywords_by_ref_frame:
  "snd (find_pages_by_keywords_by_ref L kws m) = snd (find_pages_by_ref_loop L {} kws m)"
proof (cases "kws = []")
  case True
  then show ?thesis by (simp add: find_pages_by_keywords_by_ref_def)
next
  case False
  show ?thesis
  proof (cases "find_pages_by_ref_loop L {} kws m")
    case (Pair r m1)
    with False show ?thesis
      by (cases r) (simp_all add: find_pages_by_keywords_by_ref_def Let_def)
  qed
qed

lemma find_pages_by_keywords_by_ref_output:
  assumes "vector_store w = store_handle m"
  shows "fst (find_pages_by_keywords_by_ref (read_only B) kws m)
           = fst (find_pages_by_keywords B kws w)"
proof (cases "kws = []")
  case True
  then show ?thesis
    by (simp add: find_pages_by_keywords_by_ref_def find_pages_by_keywords_def)
next
  case False
  have l: "fst (find_pages_by_ref_loop (read_only B) {} kws m) = fst (find_pages_loop B {} kws w)"
    using find_pages_by_ref_loop_read_only [OF assms, of B "{}" kws] by blast
  obtain r m1 where a: "find_pages_by_ref_loop (read_only B) {} kws m = (r, m1)"
    by (cases "find_pages_by_ref_loop (read_only B) {} kws m")
  obtain r' w1 where b: "find_pages_loop B {} kws w = (r', w1)"
    by (cases "find_pages_loop B {} kws w")
  from l a b have "r' = r" by simp
  with a b False show ?thesis
    by (cases r) (simp_all add: find_pages_by_keywords_by_ref_def find_pages_by_keywords_def Let_def)
qed


text \<open>
  Claim C7. No operation mutates the underlying store or any returned chunk, for every
  operation and every input. With the chunks held by reference: after a call, the
  \<^verbatim>\<open>Document\<close> objects in use are those in use before the call, unchanged, followed by
  the chunks of the store's answer, each with the \<open>page_content\<close> and \<open>metadata\<close> the
  store gave it; so are the metadata dictionaries of a \<^verbatim>\<open>get\<close>; for
  \<^verbatim>\<open>find_pages_by_keywords\<close> the chunks added are those of the successive answers. The
  store is in the state in which its own query left it, which for a store whose queries
  only read is the state before the call. The truncated content exists only in the
  returned string, a new value: the string returned is the one the operation computes
  from the chunks' values, and the chunk that was truncated for display still has its
  full text.
\<close>

theorem operations_mutate_nothing:
  "store_handle (snd (semantic_search_by_ref L q k m))
     = snd (run_similarity_search L (store_handle m) q k)
   \<and> live_chunks (snd (semantic_search_by_ref L q k m))
     = live_chunks m @ (case fst (run_similarity_search L (store_handle m) q k) of
                          Inl e \<Rightarrow> [] | Inr answer \<Rightarrow> answer)
   \<and> live_dicts (snd (semantic_search_by_ref L q k m)) = live_dicts m
   \<and> store_handle (snd (search_with_page_filter_by_ref L q start_page end_page k m))
     = snd (run_similarity_search L (store_handle m) q (k * 3))
   \<and> live_chunks (snd (search_with_page_filter_by_ref L q start_page end_page k m))
     = live_chunks m @ (case fst (run_similarity_search L (store_handle m) q (k * 3)) of
                          Inl e \<Rightarrow> [] | Inr answer \<Rightarrow> answer)
   \<and> live_dicts (snd (search_with_page_filter_by_ref L q start_page end_page k m))
     = live_dicts m
   \<and> store_handle (snd (get_document_pages_by_ref L pages m))
     = (if pages = [] then store_handle m
        else snd (run_get L (store_handle m)
                   (if length pages = 1 then WherePage (pages ! 0)
                    else WhereOr (map WherePage pages))))
   \<and> live_chunks (snd (get_document_pages_by_ref L pages m)) = live_chunks m
   \<and> live_dicts (snd (get_document_pages_by_ref L pages m))
     = live_dicts m
       @ (if pages = [] then []
          else (case fst (run_get L (store_handle m)
                            (if length pages = 1 then WherePage (pages ! 0)
                             else WhereOr (map WherePage pages))) of
                  Inl e \<Rightarrow> [] | Inr answer \<Rightarrow> metadatas answer))
   \<and> live_dicts (snd (find_pages_by_keywords_by_ref L kws m)) = live_dicts m
   \<and> live_chunks (snd (find_pages_by_keywords_by_ref (read_only B) kws m))
     = live_chunks m @ handed_out B (store_handle m) kws
   \<and> store_handle (snd (semantic_search_by_ref (read_only B) q k m)) = store_handle m
   \<and> store_handle (snd (search_with_page_filter_by_ref (read_only B) q start_page end_page k m))
     = store_handle m
   \<and> store_handle (snd (get_document_pages_by_ref (read_only B) pages m)) = store_handle m
   \<and> store_handle (snd (find_pages_by_keywords_by_ref (read_only B) kws m)) = store_handle m
   \<and> fst (semantic_search_by_ref (read_only B) q k m)
     = fst (semantic_search B q k \<lparr>vector_store = store_handle m, calls = cs\<rparr>)
   \<and> fst (search_with_page_filter_by_ref (read_only B) q start_page end_page k m)
     = fst (search_with_page_filter B q start_page end_page k
              \<lparr>vector_store = store_handle m, calls = cs\<rparr>)
   \<and> fst (get_document_pages_by_ref (read_only B) pages m)
     = fst (get_document_pages B pages \<lparr>vector_store = store_handle m, calls = cs\<rparr>)
   \<and> fst (find_pages_by_keywords_by_ref (read_only B) kws m)
     = fst (find_pages_by_keywords B kws \<lparr>vector_store = store_handle m, calls = cs\<rparr>)"
proof -
  let ?w = "\<lparr>vector_store = store_handle m, calls = cs\<rparr>"
  let ?flt = "if length pages = 1 then WherePage (pages ! 0) else WhereOr (map WherePage pages)"
  have w: "vector_store ?w = store_handle m" by simp
  have s: "store_handle (snd (semantic_search_by_ref L q k m))
     = snd (run_similarity_search L (store_handle m) q k)
   \<and> live_chunks (snd (semantic_search_by_ref L q k m))
     = live_chunks m @ (case fst (run_similarity_search L (store_handle m) q k) of
                          Inl e \<Rightarrow> [] | Inr answer \<Rightarrow> answer)
   \<and> live_dicts (snd (semantic_search_by_ref L q k m)) = live_dicts m"
    unfolding semantic_search_by_ref_frame by (rule similarity_search_by_ref_effect)
  have p: "store_handle (snd (search_with_page_filter_by_ref L q start_page end_page k m))
     = snd (run_similarity_search L (store_handle m) q (k * 3))
   \<and> live_chunks (snd (search_with_page_filter_by_ref L q start_page end_page k m))
     = live_chunks m @ (case fst (run_similarity_search L (store_handle m) q (k * 3)) of
                          Inl e \<Rightarrow> [] | Inr answer \<Rightarrow> answer)
   \<and> live_dicts (snd (search_with_page_filter_by_ref L q start_page end_page k m))
     = live_dicts m"
    unfolding search_with_page_filter_by_ref_frame by (rule similarity_search_by_ref_effect)
  have g: "store_handle (snd (get_document_pages_by_ref L pages m))
     = (if pages = [] then store_handle m else snd (run_get L (store_handle m) ?flt))
   \<and> live_chunks (snd (get_document_pages_by_ref L pages m)) = live_chunks m
   \<and> live_dicts (snd (get_document_pages_by_ref L pages m))
     = live_dicts m
       @ (if pages = [] then []
          else (case fst (run_get L (store_handle m) ?flt) of
                  Inl e \<Rightarrow> [] | Inr answer \<Rightarrow> metadatas answer))"
    unfolding get_document_pages_by_ref_frame
    using get_by_ref_effect [of L ?flt m] by simp
  have f1: "live_dicts (snd (find_pages_by_keywords_by_ref L kws m)) = live_dicts m"
    unfolding find_pages_by_keywords_by_ref_frame by (rule find_pages_by_ref_loop_dicts)
  have f2: "live_chunks (snd (find_pages_by_keywords_by_ref (read_only B) kws m))
              = live_chunks m @ handed_out B (store_handle m) kws"
    and f3: "store_handle (snd (find_pages_by_keywords_by_ref (read_only B) kws m))
               = store_handle m"
    unfolding find_pages_by_keywords_by_ref_frame
    using find_pages_by_ref_loop_read_only [OF w, of B "{}" kws] by blast+
  have r1: "store_handle (snd (semantic_search_by_ref (read_only B) q k m)) = store_handle m"
    unfolding semantic_search_by_ref_frame
    using similarity_search_by_ref_effect [of "read_only B" q k m]
    by (simp add: read_only_search)
  have r2: "store_handle (snd (search_with_page_filter_by_ref (read_only B) q start_page end_page k m))
              = store_handle m"
    unfolding search_with_page_filter_by_ref_frame
    using similarity_search_by_ref_effect [of "read_only B" q "k * 3" m]
    by (simp add: read_only_search)
  have r3: "store_handle (snd (get_document_pages_by_ref (read_only B) pages m)) = store_handle m"
    unfolding get_document_pages_by_ref_frame
    using get_by_ref_effect [of "read_only B" ?flt m]
    by (simp add: read_only_get)
  have o1: "fst (semantic_search_by_ref (read_only B) q k m) = fst (semantic_search B q k ?w)"
    using w by (rule semantic_search_by_ref_output)
  have o2: "fst (search_with_page_filter_by_ref (read_only B) q start_page end_page k m)
              = fst (search_with_page_filter B q start_page end_page k ?w)"
    using w by (rule search_with_page_filter_by_ref_output)
  have o3: "fst (get_document_pages_by_ref (read_only B) pages m)
              = fst (get_document_pages B pages ?w)"
    using w by (rule get_document_pages_by_ref_output)
  have o4: "fst (find_pages_by_keywords_by_ref (read_only B) kws m)
              = fst (find_pages_by_keywords B kws ?w)"
    using w by (rule find_pages_by_keywords_by_ref_output)
  from s p g f1 f2 f3 r1 r2 r3 o1 o2 o3 o4 show ?thesis by blast
qed

theorem operations_mutate_nothing_witness:
  "live_chunks (snd (semantic_search_by_ref
                       (read_only (constant_store [chunk long_text (Some 2)])) ''esg'' 5 m0))
     = [chunk long_text (Some 2)]
   \<and> live_chunks (snd (search_with_page_filter_by_ref
                         (read_only (constant_store [chunk long_text (Some 2)]))
                         ''esg'' 0 5 1 m0))
     = [chunk long_text (Some 2)]
   \<and> store_handle (snd (semantic_search_by_ref
                         (read_only (constant_store [chunk long_text (Some 2)])) ''esg'' 5 m0))
     = store_handle m0"
proof -
  let ?B = "constant_store [chunk long_text (Some 2)]"
  have e: "live_chunks m0 = []" by (simp add: live_chunks_def m0_def)
  have a: "fst (run_similarity_search (read_only ?B) (store_handle m0) ''esg'' 5)
             = Inr [chunk long_text (Some 2)]"
    "fst (run_similarity_search (read_only ?B) (store_handle m0) ''esg'' (1 * 3))
             = Inr [chunk long_text (Some 2)]"
    by (simp_all add: read_only_def constant_store_def fixed_store_def)
  show ?thesis
    using operations_mutate_nothing [of "read_only ?B" "''esg''" 5 m0 0 5 "[]" "[]" ?B]
      operations_mutate_nothing [of "read_only ?B" "''esg''" 1 m0 0 5 "[]" "[]" ?B]
      e a
    by simp
qed

section \<open>What the operations return when the store answers\<close>

lemma get_document_pages_loop_missing:
  "(doc, md) \<in> set pairs \<Longrightarrow> md ''page'' = None
     \<Longrightarrow> get_document_pages_loop acc pairs = Inl (KeyError ''page'')"
proof (induction pairs arbitrary: acc)
  case Nil
  then show ?case by simp
next
  case (Cons pr rest)
  obtain d m where pr: "pr = (d, m)" by (cases pr)
  show ?case
  proof (cases "m ''page''")
    case None
    with pr show ?thesis by simp
  next
    case (Some p)
    with Cons.prems pr have "(doc, md) \<in> set rest" by auto
    with Cons.IH Cons.prems(2) Some pr show ?thesis by simp
  qed
qed

lemma keyword_pages_Nil: "keyword_pages [] = []"
  by (simp add: keyword_pages_def)

lemma keyword_pages_Cons:
  "keyword_pages (res # rest) =
     (case metadata res ''page'' of
        None \<Rightarrow> keyword_pages rest
      | Some p \<Rightarrow> if p = 0 then keyword_pages rest else p # keyword_pages rest)"
  by (simp add: keyword_pages_def truthy_def split: option.splits)

lemma keyword_pages_set:
  "set (keyword_pages results)
     = {p. \<exists>res\<in>set results. metadata res ''page'' = Some p \<and> p \<noteq> 0}"
proof (induction results)
  case Nil
  show ?case by (simp add: keyword_pages_Nil)
next
  case (Cons res rest)
  show ?case
  proof (cases "metadata res ''page''")
    case None
    with Cons.IH show ?thesis by (auto simp add: keyword_pages_Cons)
  next
    case (Some p)
    with Cons.IH show ?thesis by (auto simp add: keyword_pages_Cons)
  qed
qed

lemma find_pages_loop_answer:
  assumes "\<forall>kw\<in>set kws. similarity_search B (vector_store w) kw 10 = Inr (R kw)"
  shows "find_pages_loop B A kws w =
           (Inr (A \<union> (\<Union>kw\<in>set kws. set (keyword_pages (R kw)))),
            w\<lparr>calls := calls w @ map (\<lambda>kw. SimilaritySearchCall kw 10) kws\<rparr>)"
  using assms
proof (induction kws arbitrary: A w)
  case Nil
  show ?case by simp
next
  case (Cons kw rest)
  let ?w = "w\<lparr>calls := calls w @ [SimilaritySearchCall kw 10]\<rparr>"
  have here: "similarity_search B (vector_store w) kw 10 = Inr (R kw)"
    using Cons.prems by simp
  have "\<forall>x\<in>set rest. similarity_search B (vector_store ?w) x 10 = Inr (R x)"
    using Cons.prems by simp
  from Cons.IH [OF this, of "A \<union> set (keyword_pages (R kw))"] here
  show ?case
    by (simp add: call_similarity_search_def Un_assoc)
qed

lemma search_with_page_filter_answer:
  assumes "similarity_search B (vector_store w) q (k * 3) = Inr rs"
  shows "search_with_page_filter B q s e k w =
     (Inr (if filtered_results s e k rs = []
           then ''No results found in pages '' @ str_int s @ ''-'' @ str_int e @ ''.''
           else ''Found '' @ str_nat (length (filtered_results s e k rs)) @ '' results in pages ''
                @ str_int s @ ''-'' @ str_int e @ '':'' @ nl @ nl
                @ entries page_filter_content 1 (filtered_results s e k rs)),
      w\<lparr>calls := calls w @ [SimilaritySearchCall q (k * 3)]\<rparr>)"
  using assms
  by (simp add: search_with_page_filter_def call_similarity_search_def Let_def
      page_filter_loop_entries)

lemma find_pages_by_keywords_answer:
  assumes "kws \<noteq> []"
    and "\<forall>kw\<in>set kws. similarity_search B (vector_store w) kw 10 = Inr (R kw)"
  shows "find_pages_by_keywords B kws w =
     (let all_pages = (\<Union>kw\<in>set kws. set (keyword_pages (R kw)))
      in (Inr (if all_pages = {}
               then ''No pages found containing keywords: '' @ str_str_list kws
               else ''Found '' @ str_nat (length (sorted_list_of_set all_pages))
                    @ '' pages containing keywords '' @ str_str_list kws @ '':'' @ nl
                    @ ''Pages: '' @ str_int_list (sorted_list_of_set all_pages)),
          w\<lparr>calls := calls w @ map (\<lambda>kw. SimilaritySearchCall kw 10) kws\<rparr>))"
  using assms find_pages_loop_answer [OF assms(2), of "{}"]
  by (simp add: find_pages_by_keywords_def Let_def)

section \<open>\<^verbatim>\<open>get_document_pages\<close>: metadata without a page\<close>

text \<open>
  Claim C8. When the store answers \<^verbatim>\<open>get_document_pages\<close> with at least one document
  whose metadata has no \<^verbatim>\<open>"page"\<close> key, the call raises \<^verbatim>\<open>KeyError('page')\<close>, from the
  unguarded index \<^verbatim>\<open>metadata['page']\<close>, instead of rendering a default. The other three
  operations handle the missing page: the two searches label such a chunk
  \<^verbatim>\<open>unknown\<close>, and all three return a string whenever the store answers.
\<close>

theorem get_document_pages_missing_page_raises:
  "(pages \<noteq> []
      \<and> get B (vector_store w)
            (if length pages = 1 then WherePage (pages ! 0) else WhereOr (map WherePage pages))
          = Inr ctx
      \<and> (doc, md) \<in> set (zip (documents ctx) (metadatas ctx))
      \<and> md ''page'' = None
      \<longrightarrow> fst (get_document_pages B pages w) = Inl (KeyError ''page''))
   \<and> (metadata res ''page'' = None \<longrightarrow> page_label res = ''unknown'')
   \<and> (similarity_search B (vector_store w) q k = Inr rs
        \<longrightarrow> (\<exists>out. fst (semantic_search B q k w) = Inr out))
   \<and> (similarity_search B (vector_store w) q (k * 3) = Inr rs
        \<longrightarrow> (\<exists>out. fst (search_with_page_filter B q start_page end_page k w) = Inr out))
   \<and> ((\<forall>kw\<in>set kws. \<exists>found. similarity_search B (vector_store w) kw 10 = Inr found)
        \<longrightarrow> (\<exists>out. fst (find_pages_by_keywords B kws w) = Inr out))"
proof -
  have a: "pages \<noteq> []
      \<and> get B (vector_store w)
            (if length pages = 1 then WherePage (pages ! 0) else WhereOr (map WherePage pages))
          = Inr ctx
      \<and> (doc, md) \<in> set (zip (documents ctx) (metadatas ctx))
      \<and> md ''page'' = None
      \<longrightarrow> fst (get_document_pages B pages w) = Inl (KeyError ''page'')"
  proof (intro impI, elim conjE)
    assume ne: "pages \<noteq> []"
      and g: "get B (vector_store w)
            (if length pages = 1 then WherePage (pages ! 0) else WhereOr (map WherePage pages))
          = Inr ctx"
      and mem: "(doc, md) \<in> set (zip (documents ctx) (metadatas ctx))"
      and none: "md ''page'' = None"
    from mem have "doc \<in> set (documents ctx)" by (rule set_zip_leftD)
    then have docs: "documents ctx \<noteq> []" by auto
    have loop: "get_document_pages_loop [] (zip (documents ctx) (metadatas ctx))
                  = Inl (KeyError ''page'')"
      using mem none by (rule get_document_pages_loop_missing)
    show "fst (get_document_pages B pages w) = Inl (KeyError ''page'')"
      using ne g docs loop
      by (simp add: get_document_pages_def call_get_def split: if_splits)
  qed
  have b: "metadata res ''page'' = None \<longrightarrow> page_label res = ''unknown''"
    by (simp add: page_label_def)
  have c: "similarity_search B (vector_store w) q k = Inr rs
        \<longrightarrow> (\<exists>out. fst (semantic_search B q k w) = Inr out)"
    by (simp add: semantic_search_answer)
  have d: "similarity_search B (vector_store w) q (k * 3) = Inr rs
        \<longrightarrow> (\<exists>out. fst (search_with_page_filter B q start_page end_page k w) = Inr out)"
    by (simp add: search_with_page_filter_answer)
  have e: "(\<forall>kw\<in>set kws. \<exists>found. similarity_search B (vector_store w) kw 10 = Inr found)
        \<longrightarrow> (\<exists>out. fst (find_pages_by_keywords B kws w) = Inr out)"
  proof
    assume "\<forall>kw\<in>set kws. \<exists>found. similarity_search B (vector_store w) kw 10 = Inr found"
    then obtain R where R: "\<forall>kw\<in>set kws. similarity_search B (vector_store w) kw 10 = Inr (R kw)"
      by metis
    show "\<exists>out. fst (find_pages_by_keywords B kws w) = Inr out"
    proof (cases "kws = []")
      case True
      then show ?thesis by (simp add: find_pages_by_keywords_def)
    next
      case False
      from find_pages_by_keywords_answer [OF False R] show ?thesis
        by (simp add: Let_def)
    qed
  qed
  from a b c d e show ?thesis by blast
qed

theorem get_document_pages_missing_page_raises_witness:
  "fst (get_document_pages (fixed_store (\<lambda>q. [chunk ''def'' None]) pageless_answer) [7] w0)
     = Inl (KeyError ''page'')
   \<and> page_label (chunk ''def'' None) = ''unknown''
   \<and> (\<exists>out. fst (semantic_search (fixed_store (\<lambda>q. [chunk ''def'' None]) pageless_answer)
                   ''esg'' 5 w0) = Inr out)
   \<and> (\<exists>out. fst (search_with_page_filter (fixed_store (\<lambda>q. [chunk ''def'' None]) pageless_answer)
                   ''esg'' 0 5 5 w0) = Inr out)
   \<and> (\<exists>out. fst (find_pages_by_keywords (fixed_store (\<lambda>q. [chunk ''def'' None]) pageless_answer)
                   [''alpha''] w0) = Inr out)"
proof -
  let ?B = "fixed_store (\<lambda>q. [chunk ''def'' None]) pageless_answer"
  have h1: "[7::int] \<noteq> []
      \<and> get ?B (vector_store w0)
            (if length [7::int] = 1 then WherePage ([7] ! 0) else WhereOr (map WherePage [7]))
          = Inr pageless_answer
      \<and> (''text'', Map.empty) \<in> set (zip (documents pageless_answer) (metadatas pageless_answer))
      \<and> (Map.empty :: metadata) ''page'' = None"
    by (simp add: fixed_store_def pageless_answer_def)
  have h2: "metadata (chunk ''def'' None) ''page'' = None"
    by (simp add: chunk_def)
  have h3: "similarity_search ?B (vector_store w0) ''esg'' 5 = Inr [chunk ''def'' None]"
    "similarity_search ?B (vector_store w0) ''esg'' (5 * 3) = Inr [chunk ''def'' None]"
    "\<forall>kw\<in>set [''alpha'']. \<exists>found. similarity_search ?B (vector_store w0) kw 10 = Inr found"
    by (simp_all add: fixed_store_def)
  show ?thesis
    using get_document_pages_missing_page_raises
      [where pages = "[7]" and B = ?B and w = w0 and ctx = pageless_answer
         and doc = "''text''" and md = Map.empty and res = "chunk ''def'' None"
         and q = "''esg''" and k = 5 and rs = "[chunk ''def'' None]"
         and start_page = 0 and end_page = 5 and kws = "[''alpha'']"]
      h1 h2 h3
    by blast
qed

section \<open>\<^verbatim>\<open>search_with_page_filter\<close>: the filter and the truncation\<close>

lemma slice_to_subset: "set (slice_to k xs) \<subseteq> set xs"
  by (auto simp add: slice_to_def dest: in_set_takeD)

lemma slice_to_subseq: "subseq (slice_to k xs) xs"
proof -
  have "prefix (slice_to k xs) xs"
    by (simp add: slice_to_def take_is_prefix)
  then show ?thesis by (rule prefix_imp_subseq)
qed

lemma filtered_results_range:
  assumes "res \<in> set (filtered_results s e k results)"
  shows "res \<in> set results \<and> page_in_range s e res"
proof -
  from assms have "res \<in> set (filter (page_in_range s e) results)"
    using slice_to_subset [of k "filter (page_in_range s e) results"]
    by (auto simp add: filtered_results_def)
  then show ?thesis by simp
qed

lemma take_reaches:
  assumes "length xs < n"
  shows "y \<in> set (take n (xs @ y # ys))"
proof -
  from assms obtain m where "n - length xs = Suc m"
    by (cases "n - length xs") auto
  then show ?thesis by simp
qed

text \<open>
  Claim C1, as stated, at a concrete input. The claim says that the operation keeps only
  chunks whose page metadata lies in the range. With the range 0 to 5 and \<open>k = 1\<close>, a
  store that answers with one chunk that has no page metadata at all sees that chunk
  kept and rendered as \<^verbatim>\<open>[Page unknown]\<close>: the range test reads an absent page as 0.
\<close>

theorem search_with_page_filter_keeps_pageless_chunk:
  "(0::int) \<le> 5 \<and> (1::int) \<le> 1
   \<and> metadata (chunk ''abc'' None) ''page'' = None
   \<and> filtered_results 0 5 1 [chunk ''abc'' None] = [chunk ''abc'' None]
   \<and> fst (search_with_page_filter (constant_store [chunk ''abc'' None])
             ''esg'' 0 5 1 w0)
       = Inr (''Found 1 results in pages 0-5:'' @ nl @ nl
              @ ''1. [Page unknown]'' @ nl @ ''abc'' @ nl @ nl)"
proof -
  have a: "metadata (chunk ''abc'' None) ''page'' = None"
    by (simp add: chunk_def)
  have b: "filtered_results 0 5 1 [chunk ''abc'' None] = [chunk ''abc'' None]"
    by (simp add: filtered_results_def slice_to_def page_in_range_def chunk_def)
  have c: "fst (search_with_page_filter (constant_store [chunk ''abc'' None])
             ''esg'' 0 5 1 w0)
       = Inr (''Found 1 results in pages 0-5:'' @ nl @ nl
              @ ''1. [Page unknown]'' @ nl @ ''abc'' @ nl @ nl)"
    by code_simp
  from a b c show ?thesis by simp
qed

text \<open>
  Claim C1, amended. For \<open>k \<ge> 1\<close>, when the store answers the request:
  \<^verbatim>\<open>search_with_page_filter\<close> requests \<open>k * 3\<close> similarity results, keeps the chunks
  whose page metadata, read as 0 when the chunk has none, lies in
  \<open>[start_page, end_page]\<close> inclusive, and returns the first \<open>k\<close> of them, so at most
  \<open>k\<close>, in the store's rank order; every returned chunk that has a page has it inside
  the range, and a returned chunk without a page occurs only when 0 is in the range.
\<close>

theorem search_with_page_filter_results:
  assumes "1 \<le> k"
    and "similarity_search B (vector_store w) q (k * 3) = Inr rs"
  shows "calls (snd (search_with_page_filter B q start_page end_page k w))
           = calls w @ [SimilaritySearchCall q (k * 3)]
    \<and> filtered_results start_page end_page k rs
           = take (nat k) (filter (page_in_range start_page end_page) rs)
    \<and> int (length (filtered_results start_page end_page k rs)) \<le> k
    \<and> subseq (filtered_results start_page end_page k rs) rs
    \<and> (\<forall>res\<in>set (filtered_results start_page end_page k rs).
          (case metadata res ''page'' of
             Some p \<Rightarrow> start_page \<le> p \<and> p \<le> end_page
           | None \<Rightarrow> start_page \<le> 0 \<and> 0 \<le> end_page))
    \<and> fst (search_with_page_filter B q start_page end_page k w)
        = Inr (if filtered_results start_page end_page k rs = []
               then ''No results found in pages '' @ str_int start_page @ ''-''
                    @ str_int end_page @ ''.''
               else ''Found '' @ str_nat (length (filtered_results start_page end_page k rs))
                    @ '' results in pages '' @ str_int start_page @ ''-'' @ str_int end_page
                    @ '':'' @ nl @ nl
                    @ concat (map (\<lambda>(j, r). str_nat j @ ''. [Page '' @ page_label r @ '']'' @ nl
                                             @ page_filter_content r @ nl @ nl)
                        (zip [1 ..< 1 + length (filtered_results start_page end_page k rs)]
                             (filtered_results start_page end_page k rs))))"
proof -
  let ?f = "filtered_results start_page end_page k rs"
  have a: "calls (snd (search_with_page_filter B q start_page end_page k w))
           = calls w @ [SimilaritySearchCall q (k * 3)]"
    using assms(2) by (simp add: search_with_page_filter_answer)
  have b: "?f = take (nat k) (filter (page_in_range start_page end_page) rs)"
    using assms(1) by (simp add: filtered_results_def slice_to_def)
  have c: "int (length ?f) \<le> k"
    using assms(1) unfolding b by simp
  have "subseq ?f (filter (page_in_range start_page end_page) rs)"
    unfolding filtered_results_def by (rule slice_to_subseq)
  moreover have "subseq (filter (page_in_range start_page end_page) rs) rs"
    by simp
  ultimately have d: "subseq ?f rs"
    by (rule subseq_order.trans)
  have e: "\<forall>res\<in>set ?f.
          (case metadata res ''page'' of
             Some p \<Rightarrow> start_page \<le> p \<and> p \<le> end_page
           | None \<Rightarrow> start_page \<le> 0 \<and> 0 \<le> end_page)"
  proof
    fix res assume "res \<in> set ?f"
    then have "page_in_range start_page end_page res"
      using filtered_results_range by blast
    then show "case metadata res ''page'' of
             Some p \<Rightarrow> start_page \<le> p \<and> p \<le> end_page
           | None \<Rightarrow> start_page \<le> 0 \<and> 0 \<le> end_page"
      by (simp add: page_in_range_def Let_def split: option.splits)
  qed
  have f: "fst (search_with_page_filter B q start_page end_page k w)
        = Inr (if ?f = []
               then ''No results found in pages '' @ str_int start_page @ ''-''
                    @ str_int end_page @ ''.''
               else ''Found '' @ str_nat (length ?f)
                    @ '' results in pages '' @ str_int start_page @ ''-'' @ str_int end_page
                    @ '':'' @ nl @ nl
                    @ concat (map (\<lambda>(j, r). str_nat j @ ''. [Page '' @ page_label r @ '']'' @ nl
                                             @ page_filter_content r @ nl @ nl)
                        (zip [1 ..< 1 + length ?f] ?f)))"
    using assms(2) by (simp add: search_with_page_filter_answer entries_def entry_def)
  from a b c d e f show ?thesis by blast
qed

theorem search_with_page_filter_results_witness:
  "(1::int) \<le> 2
   \<and> similarity_search (fixed_store (\<lambda>q. ranked) no_documents) (vector_store w0) ''esg'' (2 * 3)
       = Inr ranked
   \<and> calls (snd (search_with_page_filter (fixed_store (\<lambda>q. ranked) no_documents)
                   ''esg'' 10 20 2 w0)) = [SimilaritySearchCall ''esg'' 6]
   \<and> filtered_results 10 20 2 ranked = [chunk ''a'' (Some 12), chunk ''c'' (Some 20)]
   \<and> int (length (filtered_results 10 20 2 ranked)) \<le> 2
   \<and> subseq (filtered_results 10 20 2 ranked) ranked"
proof -
  let ?B = "fixed_store (\<lambda>q. ranked) no_documents"
  have h1: "(1::int) \<le> 2" by simp
  have h2: "similarity_search ?B (vector_store w0) ''esg'' (2 * 3) = Inr ranked"
    by (simp add: fixed_store_def)
  have c: "calls w0 = []" by (simp add: w0_def)
  have t: "take (nat 2) (filter (page_in_range 10 20) ranked)
             = [chunk ''a'' (Some 12), chunk ''c'' (Some 20)]"
    by (simp add: ranked_def page_in_range_def chunk_def)
  have m: "calls (snd (search_with_page_filter ?B ''esg'' 10 20 2 w0))
             = calls w0 @ [SimilaritySearchCall ''esg'' (2 * 3)]
      \<and> filtered_results 10 20 2 ranked = take (nat 2) (filter (page_in_range 10 20) ranked)
      \<and> int (length (filtered_results 10 20 2 ranked)) \<le> 2
      \<and> subseq (filtered_results 10 20 2 ranked) ranked"
    using search_with_page_filter_results [OF h1 h2, of 10 20] by blast
  from m have m1: "calls (snd (search_with_page_filter ?B ''esg'' 10 20 2 w0))
             = [SimilaritySearchCall ''esg'' 6]"
    using c by simp
  from m have m2: "filtered_results 10 20 2 ranked = [chunk ''a'' (Some 12), chunk ''c'' (Some 20)]"
    using t by (simp only:)
  from m have m3: "int (length (filtered_results 10 20 2 ranked)) \<le> 2"
    and m4: "subseq (filtered_results 10 20 2 ranked) ranked"
    by blast+
  from h1 h2 m1 m2 m3 m4 show ?thesis by blast
qed

text \<open>
  Claim C9, as stated, at a concrete input. The claim says that a chunk without a page
  is included in the results whenever \<open>start_page \<le> 0 \<le> end_page\<close>. With the range 0
  to 0 and \<open>k = 1\<close>, a store that answers with two chunks without a page sees only the
  first one returned: the second passes the range test and is cut by the slice
  \<^verbatim>\<open>[:k]\<close>.
\<close>

theorem pageless_chunk_cut_by_truncation:
  "metadata (chunk ''second'' None) ''page'' = None
   \<and> (0::int) \<le> 0
   \<and> chunk ''second'' None \<in> set [chunk ''first'' None, chunk ''second'' None]
   \<and> chunk ''second'' None
        \<notin> set (filtered_results 0 0 1 [chunk ''first'' None, chunk ''second'' None])
   \<and> fst (search_with_page_filter
             (constant_store [chunk ''first'' None, chunk ''second'' None])
             ''esg'' 0 0 1 w0)
       = Inr (''Found 1 results in pages 0-0:'' @ nl @ nl
              @ ''1. [Page unknown]'' @ nl @ ''first'' @ nl @ nl)"
proof -
  have a: "metadata (chunk ''second'' None) ''page'' = None"
    by (simp add: chunk_def)
  have b: "filtered_results 0 0 1 [chunk ''first'' None, chunk ''second'' None]
             = [chunk ''first'' None]"
    by (simp add: filtered_results_def slice_to_def page_in_range_def chunk_def)
  have ne: "chunk ''second'' None \<noteq> chunk ''first'' None"
    by (simp add: chunk_def)
  have c: "fst (search_with_page_filter
             (constant_store [chunk ''first'' None, chunk ''second'' None])
             ''esg'' 0 0 1 w0)
       = Inr (''Found 1 results in pages 0-0:'' @ nl @ nl
              @ ''1. [Page unknown]'' @ nl @ ''first'' @ nl @ nl)"
    by code_simp
  from a b ne c show ?thesis by simp
qed

text \<open>
  Claim C9, amended. A chunk whose metadata has no \<^verbatim>\<open>"page"\<close> key is treated as having
  page 0 for the range test: it passes the test exactly when
  \<open>start_page \<le> 0 \<le> end_page\<close>, as the same chunk with page 0 would. It is displayed
  as \<^verbatim>\<open>[Page unknown]\<close>. It is among the results only if 0 is in the range, and it is
  among them whenever 0 is in the range and fewer than \<open>k\<close> chunks ranked before it
  pass the test.
\<close>

theorem pageless_chunk_range_test:
  assumes "metadata res ''page'' = None"
  shows "(page_in_range start_page end_page res \<longleftrightarrow> start_page \<le> 0 \<and> 0 \<le> end_page)
    \<and> page_in_range start_page end_page res
        = page_in_range start_page end_page (res\<lparr>metadata := (metadata res)(''page'' \<mapsto> 0)\<rparr>)
    \<and> page_label res = ''unknown''
    \<and> (res \<in> set (filtered_results start_page end_page k results)
          \<longrightarrow> start_page \<le> 0 \<and> 0 \<le> end_page)
    \<and> (results = before @ res # rest \<and> start_page \<le> 0 \<and> 0 \<le> end_page
          \<and> int (length (filter (page_in_range start_page end_page) before)) < k
          \<longrightarrow> res \<in> set (filtered_results start_page end_page k results))"
proof -
  have a: "page_in_range start_page end_page res \<longleftrightarrow> start_page \<le> 0 \<and> 0 \<le> end_page"
    using assms by (simp add: page_in_range_def)
  have b: "page_in_range start_page end_page res
        = page_in_range start_page end_page (res\<lparr>metadata := (metadata res)(''page'' \<mapsto> 0)\<rparr>)"
    using assms by (simp add: page_in_range_def)
  have c: "page_label res = ''unknown''"
    using assms by (simp add: page_label_def)
  have d: "res \<in> set (filtered_results start_page end_page k results)
          \<longrightarrow> start_page \<le> 0 \<and> 0 \<le> end_page"
    using filtered_results_range [of res start_page end_page k results] a by blast
  have e: "results = before @ res # rest \<and> start_page \<le> 0 \<and> 0 \<le> end_page
          \<and> int (length (filter (page_in_range start_page end_page) before)) < k
          \<longrightarrow> res \<in> set (filtered_results start_page end_page k results)"
  proof (intro impI, elim conjE)
    let ?P = "page_in_range start_page end_page"
    assume r: "results = before @ res # rest" and s: "start_page \<le> 0" "0 \<le> end_page"
      and l: "int (length (filter ?P before)) < k"
    from s a have p: "?P res" by simp
    from l have k: "0 \<le> k" and n: "length (filter ?P before) < nat k" by auto
    have "filter ?P results = filter ?P before @ res # filter ?P rest"
      using r p by simp
    then have "res \<in> set (take (nat k) (filter ?P results))"
      using take_reaches [OF n] by simp
    then show "res \<in> set (filtered_results start_page end_page k results)"
      using k by (simp add: filtered_results_def slice_to_def)
  qed
  from a b c d e show ?thesis by blast
qed

theorem pageless_chunk_range_test_witness:
  "metadata (chunk ''first'' None) ''page'' = None
   \<and> page_in_range 0 0 (chunk ''first'' None)
   \<and> \<not> page_in_range 10 20 (chunk ''first'' None)
   \<and> page_label (chunk ''first'' None) = ''unknown''
   \<and> chunk ''first'' None
       \<in> set (filtered_results 0 0 1 [chunk ''first'' None, chunk ''second'' None])"
proof -
  have h: "metadata (chunk ''first'' None) ''page'' = None"
    by (simp add: chunk_def)
  have l: "[chunk ''first'' None, chunk ''second'' None] = [] @ chunk ''first'' None # [chunk ''second'' None]
           \<and> int (length (filter (page_in_range 0 0) [])) < 1"
    by simp
  show ?thesis
    using pageless_chunk_range_test [OF h, of 0 0 1 "[chunk ''first'' None, chunk ''second'' None]" "[]" "[chunk ''second'' None]"]
      pageless_chunk_range_test [OF h, of 10 20] h l
    by simp
qed

section \<open>\<^verbatim>\<open>find_pages_by_keywords\<close>: the collected pages\<close>

text \<open>
  Claim C10. \<^verbatim>\<open>find_pages_by_keywords\<close> collects a chunk's page only when the looked-up
  value is truthy, that is present and not 0: a chunk whose metadata has
  \<^verbatim>\<open>page = 0\<close> contributes nothing, like a chunk with no page. For a non-empty keyword
  list and a store that answers every search, the set of pages is the set of non-zero
  pages of all answers, 0 is never in it, and the output renders that set.
\<close>

theorem find_pages_by_keywords_skips_falsy_pages:
  assumes "kws \<noteq> []"
    and "\<forall>kw\<in>set kws. similarity_search B (vector_store w) kw 10 = Inr (R kw)"
  shows "(let all_pages = {p. \<exists>kw\<in>set kws. \<exists>res\<in>set (R kw).
                               metadata res ''page'' = Some p \<and> p \<noteq> 0}
          in 0 \<notin> all_pages
             \<and> fst (find_pages_by_keywords B kws w)
                 = Inr (if all_pages = {}
                        then ''No pages found containing keywords: '' @ str_str_list kws
                        else ''Found '' @ str_nat (length (sorted_list_of_set all_pages))
                             @ '' pages containing keywords '' @ str_str_list kws @ '':'' @ nl
                             @ ''Pages: '' @ str_int_list (sorted_list_of_set all_pages)))
    \<and> keyword_pages (res # rest)
        = (case metadata res ''page'' of
             None \<Rightarrow> keyword_pages rest
           | Some p \<Rightarrow> if p = 0 then keyword_pages rest else p # keyword_pages rest)"
proof -
  have eq: "(\<Union>kw\<in>set kws. set (keyword_pages (R kw)))
              = {p. \<exists>kw\<in>set kws. \<exists>res\<in>set (R kw). metadata res ''page'' = Some p \<and> p \<noteq> 0}"
    by (auto simp add: keyword_pages_set)
  show ?thesis
    using find_pages_by_keywords_answer [OF assms] keyword_pages_Cons [of res rest]
    unfolding eq by (simp add: Let_def)
qed

theorem find_pages_by_keywords_skips_falsy_pages_witness:
  "[''alpha'', ''beta''] \<noteq> []
   \<and> similarity_search (fixed_store keyword_answers no_documents) (vector_store w0)
         ''alpha'' 10 = Inr (keyword_answers ''alpha'')
   \<and> similarity_search (fixed_store keyword_answers no_documents) (vector_store w0)
         ''beta'' 10 = Inr (keyword_answers ''beta'')
   \<and> fst (find_pages_by_keywords (fixed_store keyword_answers no_documents)
            [''alpha'', ''beta''] w0)
       = Inr (''Found 2 pages containing keywords ['' @ [CHR 0x27] @ ''alpha'' @ [CHR 0x27]
              @ '', '' @ [CHR 0x27] @ ''beta'' @ [CHR 0x27] @ '']:'' @ nl @ ''Pages: [2, 4]'')"
proof -
  let ?B = "fixed_store keyword_answers no_documents"
  let ?kws = "[''alpha'', ''beta'']"
  let ?P = "{p. \<exists>kw\<in>set ?kws. \<exists>res\<in>set (keyword_answers kw).
                  metadata res ''page'' = Some p \<and> p \<noteq> 0}"
  have h1: "?kws \<noteq> []" by simp
  have h2: "\<forall>kw\<in>set ?kws. similarity_search ?B (vector_store w0) kw 10 = Inr (keyword_answers kw)"
    by (simp add: fixed_store_def)
  have P: "?P = {2, 4}"
    by (auto simp add: keyword_answers_def chunk_def)
  have s: "sorted_list_of_set {2, 4 :: int} = [2, 4]"
    by code_simp
  have r: "''Found '' @ str_nat (length [2, 4 :: int])
             @ '' pages containing keywords '' @ str_str_list ?kws @ '':'' @ nl
             @ ''Pages: '' @ str_int_list [2, 4]
           = ''Found 2 pages containing keywords ['' @ [CHR 0x27] @ ''alpha'' @ [CHR 0x27]
              @ '', '' @ [CHR 0x27] @ ''beta'' @ [CHR 0x27] @ '']:'' @ nl @ ''Pages: [2, 4]''"
    by code_simp
  have "fst (find_pages_by_keywords ?B ?kws w0)
          = Inr (if ?P = {}
                 then ''No pages found containing keywords: '' @ str_str_list ?kws
                 else ''Found '' @ str_nat (length (sorted_list_of_set ?P))
                      @ '' pages containing keywords '' @ str_str_list ?kws @ '':'' @ nl
                      @ ''Pages: '' @ str_int_list (sorted_list_of_set ?P))"
    using find_pages_by_keywords_skips_falsy_pages [OF h1 h2] by (simp add: Let_def)
  then have "fst (find_pages_by_keywords ?B ?kws w0)
          = Inr (''Found '' @ str_nat (length [2, 4 :: int])
             @ '' pages containing keywords '' @ str_str_list ?kws @ '':'' @ nl
             @ ''Pages: '' @ str_int_list [2, 4])"
    unfolding P s by simp
  then have "fst (find_pages_by_keywords ?B ?kws w0)
       = Inr (''Found 2 pages containing keywords ['' @ [CHR 0x27] @ ''alpha'' @ [CHR 0x27]
              @ '', '' @ [CHR 0x27] @ ''beta'' @ [CHR 0x27] @ '']:'' @ nl @ ''Pages: [2, 4]'')"
    unfolding r .
  with h1 h2 show ?thesis by simp
qed

text \<open>
  Claim C3 at the input where the code departs from it. The claim says that the page
  numbers of all results are united. A store that answers the keyword \<^verbatim>\<open>"alpha"\<close> with a
  chunk of page 0 and a chunk of page 4 yields one page, 4: page 0, a page number of a
  result, is not in the output.
\<close>

theorem find_pages_by_keywords_drops_page_zero:
  "fst (find_pages_by_keywords
          (constant_store [chunk ''intro'' (Some 0), chunk ''body'' (Some 4)])
          [''alpha''] w0)
     = Inr (''Found 1 pages containing keywords ['' @ [CHR 0x27] @ ''alpha'' @ [CHR 0x27]
            @ '']:'' @ nl @ ''Pages: [4]'')"
  by code_simp

end
